theory Spec2Isabelle
  imports Main
begin

section \<open>Token catalogue (package token)\<close>

text \<open>
  Go declares \<^verbatim>\<open>type Type int\<close> and numbers the kinds with \<^verbatim>\<open>iota\<close>; range
  membership is decided by comparing against the unexported boundary kinds, so the
  kinds are integers here as well.  Three kinds are suffixed because their Go name
  is taken in HOL (\<open>Not\<close>, \<open>If\<close>, \<open>Let\<close>).
\<close>

type_synonym Type = int

definition Illegal :: Type where "Illegal = 0"
definition Eof :: Type where "Eof = 1"
definition Comment :: Type where "Comment = 2"
definition literalBeg :: Type where "literalBeg = 3"
definition Identifier :: Type where "Identifier = 4"
definition Number :: Type where "Number = 5"
definition String :: Type where "String = 6"
definition literalEnd :: Type where "literalEnd = 7"
definition operatorBeg :: Type where "operatorBeg = 8"
definition Addition :: Type where "Addition = 9"
definition Subtraction :: Type where "Subtraction = 10"
definition Multiplication :: Type where "Multiplication = 11"
definition Quotient :: Type where "Quotient = 12"
definition Remainder :: Type where "Remainder = 13"
definition And :: Type where "And = 14"
definition Or :: Type where "Or = 15"
definition Xor :: Type where "Xor = 16"
definition ShiftLeft :: Type where "ShiftLeft = 17"
definition ShiftRight :: Type where "ShiftRight = 18"
definition AndNot :: Type where "AndNot = 19"
definition AdditionAssign :: Type where "AdditionAssign = 20"
definition SubtractionAssign :: Type where "SubtractionAssign = 21"
definition MultiplicationAssign :: Type where "MultiplicationAssign = 22"
definition QuotientAssign :: Type where "QuotientAssign = 23"
definition RemainderAssign :: Type where "RemainderAssign = 24"
definition AndAssign :: Type where "AndAssign = 25"
definition OrAssign :: Type where "OrAssign = 26"
definition XorAssign :: Type where "XorAssign = 27"
definition ShiftLeftAssign :: Type where "ShiftLeftAssign = 28"
definition ShiftRightAssign :: Type where "ShiftRightAssign = 29"
definition AndNotAssign :: Type where "AndNotAssign = 30"
definition LogicalAnd :: Type where "LogicalAnd = 31"
definition LogicalOr :: Type where "LogicalOr = 32"
definition Equal :: Type where "Equal = 33"
definition LessThan :: Type where "LessThan = 34"
definition GreaterThan :: Type where "GreaterThan = 35"
definition Assign :: Type where "Assign = 36"
definition Define :: Type where "Define = 37"
definition Not_tok :: Type where "Not_tok = 38"
definition NotEqual :: Type where "NotEqual = 39"
definition LessThanEqual :: Type where "LessThanEqual = 40"
definition GreaterThanEqual :: Type where "GreaterThanEqual = 41"
definition LeftParen :: Type where "LeftParen = 42"
definition LeftBrack :: Type where "LeftBrack = 43"
definition LeftBrace :: Type where "LeftBrace = 44"
definition Template :: Type where "Template = 45"
definition Comma :: Type where "Comma = 46"
definition Period :: Type where "Period = 47"
definition RightParen :: Type where "RightParen = 48"
definition RightBrack :: Type where "RightBrack = 49"
definition RightBrace :: Type where "RightBrace = 50"
definition Semicolon :: Type where "Semicolon = 51"
definition Colon :: Type where "Colon = 52"
definition operatorEnd :: Type where "operatorEnd = 53"
definition keywordBeg :: Type where "keywordBeg = 54"
definition For :: Type where "For = 55"
definition If_tok :: Type where "If_tok = 56"
definition Else :: Type where "Else = 57"
definition Let_tok :: Type where "Let_tok = 58"
definition Obj :: Type where "Obj = 59"
definition Func_tok :: Type where "Func_tok = 60"
definition Break :: Type where "Break = 61"
definition Continue :: Type where "Continue = 62"
definition Return :: Type where "Return = 63"
definition keywordEnd :: Type where "keywordEnd = 64"

lemmas Type_defs =
  Illegal_def Eof_def Comment_def literalBeg_def Identifier_def Number_def String_def
  literalEnd_def operatorBeg_def Addition_def Subtraction_def Multiplication_def
  Quotient_def Remainder_def And_def Or_def Xor_def ShiftLeft_def ShiftRight_def
  AndNot_def AdditionAssign_def SubtractionAssign_def MultiplicationAssign_def
  QuotientAssign_def RemainderAssign_def AndAssign_def OrAssign_def XorAssign_def
  ShiftLeftAssign_def ShiftRightAssign_def AndNotAssign_def LogicalAnd_def LogicalOr_def
  Equal_def LessThan_def GreaterThan_def Assign_def Define_def Not_tok_def NotEqual_def
  LessThanEqual_def GreaterThanEqual_def LeftParen_def LeftBrack_def LeftBrace_def
  Template_def Comma_def Period_def RightParen_def RightBrack_def RightBrace_def
  Semicolon_def Colon_def operatorEnd_def keywordBeg_def For_def If_tok_def Else_def
  Let_tok_def Obj_def Func_tok_def Break_def Continue_def Return_def keywordEnd_def

text \<open>
  The spelling table is a Go array literal with keyed elements: its length is the
  largest key plus one and every index without a key holds the empty string.
\<close>

definition tokens_entries :: "(Type \<times> string) list" where
  "tokens_entries =
    [(Illegal, ''ILLEGAL''),
     (Eof, ''EOF''), (Comment, ''COMMENT''),
     (Identifier, ''IDENT''), (Number, ''FLOAT''), (String, ''STRING''),
     (Addition, ''+''), (Subtraction, ''-''), (Multiplication, ''*''),
     (Quotient, ''/''), (Remainder, ''%''),
     (And, ''&''), (Or, ''|''), (Xor, ''^''), (ShiftLeft, ''<<''),
     (ShiftRight, ''>>''), (AndNot, ''&^''),
     (AdditionAssign, ''+=''), (SubtractionAssign, ''-=''),
     (MultiplicationAssign, ''*=''), (QuotientAssign, ''/=''), (RemainderAssign, ''%=''),
     (AndAssign, ''&=''), (OrAssign, ''|=''), (XorAssign, ''^=''),
     (ShiftLeftAssign, ''<<=''), (ShiftRightAssign, ''>>=''), (AndNotAssign, ''&^=''),
     (LogicalAnd, ''&&''), (LogicalOr, ''||''),
     (Equal, ''==''), (LessThan, ''<''), (GreaterThan, ''>''), (Assign, ''=''),
     (Not_tok, ''!''),
     (NotEqual, ''!=''), (LessThanEqual, ''<=''), (GreaterThanEqual, ''>=''),
     (Define, '':=''),
     (LeftParen, ''(''), (LeftBrack, ''[''), (LeftBrace, ''{''), (Template, [CHR 0x27]),
     (Comma, '',''), (Period, ''.''),
     (RightParen, '')''), (RightBrack, '']''), (RightBrace, ''}''),
     (Semicolon, '';''), (Colon, '':''),
     (For, ''for''), (If_tok, ''if''), (Else, ''else''),
     (Let_tok, ''let''), (Obj, ''obj''), (Func_tok, ''func''),
     (Break, ''break''), (Continue, ''continue''), (Return, ''return'')]"

definition tokens :: "string list" where
  "tokens = map (\<lambda>i. case map_of tokens_entries (int i) of None \<Rightarrow> '''' | Some s \<Rightarrow> s)
                [0 ..< Suc (nat (foldr max (map fst tokens_entries) 0))]"

text \<open>\<^verbatim>\<open>token(s)\<close>: the first index whose spelling is \<open>s\<close>, \<open>Illegal\<close> if there is none.\<close>

fun token_from :: "nat \<Rightarrow> string list \<Rightarrow> string \<Rightarrow> Type" where
  "token_from t [] s = Illegal"
| "token_from t (val # vals) s = (if val = s then int t else token_from (Suc t) vals s)"

definition token :: "string \<Rightarrow> Type" where
  "token s = token_from 0 tokens s"

text \<open>\<^verbatim>\<open>strconv.Itoa\<close> of the Go standard library: the decimal spelling of an integer.\<close>

fun digits :: "nat \<Rightarrow> string" where
  "digits n = (if n < 10 then [char_of (48 + n)]
               else digits (n div 10) @ [char_of (48 + n mod 10)])"

definition Itoa :: "int \<Rightarrow> string" where
  "Itoa i = (if i < 0 then ''-'' @ digits (nat (- i)) else digits (nat i))"

text \<open>The method \<^verbatim>\<open>(tok Type) String()\<close>.\<close>

definition Type_String :: "Type \<Rightarrow> string" where
  "Type_String tok =
    (let s = (if 0 \<le> tok \<and> tok < int (length tokens) then tokens ! nat tok else '''')
     in if s = '''' then ''token('' @ Itoa tok @ '')'' else s)"

definition Type_IsLiteral :: "Type \<Rightarrow> bool" where
  "Type_IsLiteral tok \<longleftrightarrow> literalBeg < tok \<and> tok < literalEnd"

definition Type_IsOperator :: "Type \<Rightarrow> bool" where
  "Type_IsOperator tok \<longleftrightarrow> operatorBeg < tok \<and> tok < operatorEnd"

definition Type_IsKeyword :: "Type \<Rightarrow> bool" where
  "Type_IsKeyword tok \<longleftrightarrow> keywordBeg < tok \<and> tok < keywordEnd"

definition Type_InsertSemi :: "Type \<Rightarrow> bool" where
  "Type_InsertSemi tok \<longleftrightarrow>
     (if Type_IsLiteral tok then True
      else tok \<in> {RightParen, RightBrack, RightBrace, Break, Continue, Return})"

text \<open>
  The map \<^verbatim>\<open>keywords\<close> (renamed: the word is reserved in theory headers), filled by \<^verbatim>\<open>init\<close> with
  \<^verbatim>\<open>for i := keywordBeg + 1; i < keywordEnd; i++ { keywords[tokens[i]] = i }\<close>.
\<close>

definition keywords_map :: "string \<rightharpoonup> Type" where
  "keywords_map = fold (\<lambda>i m. m(tokens ! nat i \<mapsto> i)) [keywordBeg + 1 .. keywordEnd - 1] Map.empty"

definition IsKeyword :: "string \<Rightarrow> bool" where
  "IsKeyword name \<longleftrightarrow> keywords_map name \<noteq> None"

definition IsOperator :: "string \<Rightarrow> bool" where
  "IsOperator s = Type_IsOperator (token s)"

definition Lookup :: "string \<Rightarrow> Type" where
  "Lookup name = (case keywords_map name of Some tok \<Rightarrow> tok | None \<Rightarrow> Identifier)"

text \<open>The spellings of the kinds strictly between \<open>keywordBeg\<close> and \<open>keywordEnd\<close>.\<close>

definition keyword_spellings :: "string list" where
  "keyword_spellings = map Type_String [keywordBeg + 1 .. keywordEnd - 1]"

text \<open>The table, written out.\<close>

lemma tokens_eq: "tokens =
 [''ILLEGAL'', ''EOF'', ''COMMENT'', [], ''IDENT'', ''FLOAT'', ''STRING'',
  [], [], ''+'', ''-'', ''*'', ''/'', ''%'', ''&'', ''|'', ''^'', ''<<'',
  ''>>'', ''&^'', ''+='', ''-='', ''*='', ''/='', ''%='', ''&='', ''|='',
  ''^='', ''<<='', ''>>='', ''&^='', ''&&'', ''||'', ''=='', ''<'', ''>'',
  ''='', '':='', ''!'', ''!='', ''<='', ''>='', ''('', ''['', ''{'',
  [CHR 0x27], '','', ''.'', '')'', '']'', ''}'', '';'', '':'', [], [],
  ''for'', ''if'', ''else'', ''let'', ''obj'', ''func'', ''break'',
  ''continue'', ''return'']"
  unfolding tokens_def tokens_entries_def Type_defs
  by (simp add: upt_rec)

section \<open>Positions, tokens and the syntax tree\<close>

text \<open>
  Modelled from the spec: the declaration of \<^verbatim>\<open>token.Position\<close> is not among the
  sources.  A position is a line and a column; a newline increments the line and
  resets the column to 1.
\<close>

record Position =
  Line :: int
  Col :: int

text \<open>Modelled from the spec: the method \<^verbatim>\<open>NextLine\<close>, not among the sources.\<close>

definition NextLine :: "Position \<Rightarrow> Position" where
  "NextLine pos = pos\<lparr>Line := Line pos + 1, Col := 1\<rparr>"

text \<open>\<^verbatim>\<open>token.Token\<close>, with the zero value Go gives an uninitialised token.\<close>

record Token =
  Type :: Type
  Literal :: string
  Position :: Position

definition zeroToken :: Token where
  "zeroToken = \<lparr>Type = 0, Literal = '''', Position = \<lparr>Line = 0, Col = 0\<rparr>\<rparr>"

text \<open>
  Modelled from the spec: package \<^verbatim>\<open>ast\<close> is not among the sources.  The node
  variants and their fields are the ones the parser fills in: \<^verbatim>\<open>LiteralCommand{Cmd, Args}\<close>,
  \<^verbatim>\<open>UnaryCommand{Operator, Right}\<close>, \<^verbatim>\<open>BinaryCommand{Left, Operator, Right}\<close>,
  \<^verbatim>\<open>LogicalCommand{Left, Operator, Right}\<close>.  A Go \<^verbatim>\<open>ast.Statement\<close> is an interface
  value and may be \<^verbatim>\<open>nil\<close>, hence the \<open>option\<close> in statement lists.
\<close>

datatype Command =
    LiteralCommand Token "Token list"
  | UnaryCommand Token Command
  | BinaryCommand Command Token Command
  | LogicalCommand Command Token Command

text \<open>Modelled from the spec: the statement nodes of package \<^verbatim>\<open>ast\<close> (a block owns its statements).\<close>

datatype Statement =
    BlockStatement "Statement option list"
  | CmdStatement Command

section \<open>Parser (package parser)\<close>

text \<open>
  Modelled from the spec: the \<^verbatim>\<open>parser\<close> struct and its primitives
  (\<^verbatim>\<open>current\<close>, \<^verbatim>\<open>pTok\<close>, \<^verbatim>\<open>next\<close>, \<^verbatim>\<open>match\<close>, \<^verbatim>\<open>atEnd\<close>, \<^verbatim>\<open>error\<close>) are not
  among the sources.  The spec has: \<open>current\<close> is the token just consumed, \<open>pTok\<close> the
  kind of the next unconsumed token, \<open>next\<close> advances the window by one token,
  \<open>match(kind)\<close> advances only if the peeked kind is the expected one and says whether
  it did; an error is reported (position and message) and never aborts the parse.

  The token stream is the list of tokens the lexer has yet to hand over, its head
  being the peeked token.  Past the end of a closed stream a Go receive yields the
  zero token, whose kind is \<open>Illegal\<close>.  The parser is at the end when the peeked token
  is the end-of-input token, which the lexer sends last, just before it closes the
  stream.
\<close>

record parser =
  tok :: Token
  stream :: "Token list"
  errors :: "string list"

text \<open>Modelled from the spec: a parser that has consumed nothing yet, the whole stream ahead.\<close>

definition newParser :: "Token list \<Rightarrow> parser" where
  "newParser ts = \<lparr>tok = zeroToken, stream = ts, errors = []\<rparr>"

text \<open>Modelled from the spec: the next unconsumed token, whose kind is \<^verbatim>\<open>pTok\<close>.\<close>

definition peekToken :: "parser \<Rightarrow> Token" where
  "peekToken p = (case stream p of [] \<Rightarrow> zeroToken | t # _ \<Rightarrow> t)"

text \<open>Modelled from the spec: \<^verbatim>\<open>pTok\<close>, the kind of the next unconsumed token.\<close>

definition pTok :: "parser \<Rightarrow> Type" where
  "pTok p = Type (peekToken p)"

text \<open>Modelled from the spec: \<^verbatim>\<open>current\<close>, the token just consumed.\<close>

definition current :: "parser \<Rightarrow> Token" where
  "current p = tok p"

text \<open>Modelled from the spec: \<^verbatim>\<open>next\<close> advances the window by one token.\<close>

definition "next" :: "parser \<Rightarrow> parser" where
  "next p = p\<lparr>tok := peekToken p, stream := tl (stream p)\<rparr>"

text \<open>Modelled from the spec: \<^verbatim>\<open>match\<close> advances only if the peeked kind is the expected one.\<close>

definition match :: "Type \<Rightarrow> parser \<Rightarrow> bool \<times> parser" where
  "match t p = (if pTok p = t then (True, next p) else (False, p))"

text \<open>Modelled from the spec: \<^verbatim>\<open>atEnd\<close>, no token left but the end of input.\<close>

definition atEnd :: "parser \<Rightarrow> bool" where
  "atEnd p \<longleftrightarrow> pTok p = Eof"

text \<open>Modelled from the spec: \<^verbatim>\<open>error\<close> reports and goes on; the messages are kept in order.\<close>

definition error :: "string \<Rightarrow> parser \<Rightarrow> parser" where
  "error msg p = p\<lparr>errors := errors p @ [msg]\<rparr>"

text \<open>
  The kinds the parser names are those of an earlier revision of the catalogue:
  \<^verbatim>\<open>STRING\<close>, \<^verbatim>\<open>NOT\<close>, \<^verbatim>\<open>OR\<close>, \<^verbatim>\<open>LAND\<close>, \<^verbatim>\<open>LOR\<close>, \<^verbatim>\<open>SEMICOLON\<close>, \<^verbatim>\<open>LBRACE\<close>,
  \<^verbatim>\<open>RBRACE\<close>, \<^verbatim>\<open>LET\<close>, \<^verbatim>\<open>IF\<close>, \<^verbatim>\<open>FOR\<close> are \<open>String\<close>, \<open>Not_tok\<close>, \<open>Or\<close>,
  \<open>LogicalAnd\<close>, \<open>LogicalOr\<close>, \<open>Semicolon\<close>, \<open>LeftBrace\<close>, \<open>RightBrace\<close>, \<open>Let_tok\<close>,
  \<open>If_tok\<close>, \<open>For\<close>.
\<close>

subsection \<open>Commands\<close>

text \<open>The loop \<^verbatim>\<open>for p.match(token.STRING) { lit.Args = append(lit.Args, p.current()) }\<close>.\<close>

function parseCmdLit_loop :: "Token list \<Rightarrow> parser \<Rightarrow> Token list \<times> parser" where
  "parseCmdLit_loop args p =
     (case match String p of
        (True, p1) \<Rightarrow> parseCmdLit_loop (args @ [current p1]) p1
      | (False, p1) \<Rightarrow> (args, p1))"
  by pat_completeness auto
termination
  by (relation "measure (\<lambda>(args, p). length (stream p))")
     (auto simp: match_def next_def pTok_def peekToken_def zeroToken_def String_def
           split: if_splits list.splits)

declare parseCmdLit_loop.simps [simp del]

definition parseCmdLit :: "parser \<Rightarrow> Command \<times> parser" where
  "parseCmdLit p =
     (let (m, p1) = match String p;
          p2 = (if \<not> m then error (''unexpected toke '' @ Type_String (pTok p1)) p1 else p1);
          cmd = current p2;
          (args, p3) = parseCmdLit_loop [] p2
      in (LiteralCommand cmd args, p3))"

lemma match_stream_le: "length (stream (snd (match t p))) \<le> length (stream p)"
  by (simp add: match_def next_def)

lemma match_True_stream_less:
  "match t p = (True, p1) \<Longrightarrow> t \<noteq> Illegal \<Longrightarrow> length (stream p1) < length (stream p)"
  by (auto simp: match_def next_def pTok_def peekToken_def zeroToken_def Illegal_def
           split: if_splits list.splits)

lemma parseCmdLit_loop_stream_le:
  "length (stream (snd (parseCmdLit_loop args p))) \<le> length (stream p)"
proof (induction args p rule: parseCmdLit_loop.induct)
  case (1 args p)
  show ?case
  proof (cases "match String p")
    case (Pair m p1)
    show ?thesis
    proof (cases m)
      case True
      with Pair 1 [of m p1] match_stream_le [of String p] show ?thesis
        by (simp add: parseCmdLit_loop.simps [of args p])
    next
      case False
      with Pair match_stream_le [of String p] show ?thesis
        by (simp add: parseCmdLit_loop.simps [of args p])
    qed
  qed
qed

lemma parseCmdLit_stream_le: "length (stream (snd (parseCmdLit p))) \<le> length (stream p)"
proof -
  have "length (stream (snd (parseCmdLit p))) \<le> length (stream (snd (match String p)))"
    using parseCmdLit_loop_stream_le
    by (simp add: parseCmdLit_def Let_def split_def error_def
         order_trans [OF parseCmdLit_loop_stream_le])
  with match_stream_le [of String p] show ?thesis by simp
qed

text \<open>The loop of \<^verbatim>\<open>parseCmdPipe\<close>, \<^verbatim>\<open>for p.match(token.OR) { ... }\<close>.\<close>

function parseCmdPipe_loop :: "Command \<Rightarrow> parser \<Rightarrow> Command \<times> parser" where
  "parseCmdPipe_loop expr p =
     (case match Or p of
        (True, p1) \<Rightarrow>
          (let tok = current p1;
               (right, p2) = parseCmdLit p1
           in parseCmdPipe_loop (BinaryCommand expr tok right) p2)
      | (False, p1) \<Rightarrow> (expr, p1))"
  by pat_completeness auto
termination
proof (relation "measure (\<lambda>(expr, p). length (stream p))", goal_cases)
  case 1
  show ?case by simp
next
  case (2 expr p m p1 tok' rp right p2)
  from 2 have "match Or p = (True, p1)" by simp
  then have "length (stream p1) < length (stream p)"
    by (rule match_True_stream_less) (simp add: Or_def Illegal_def)
  moreover from 2 parseCmdLit_stream_le [of p1] have "length (stream p2) \<le> length (stream p1)"
    by (metis snd_conv)
  ultimately show ?case by simp
qed

declare parseCmdPipe_loop.simps [simp del]

definition parseCmdPipe :: "parser \<Rightarrow> Command \<times> parser" where
  "parseCmdPipe p = (let (expr, p1) = parseCmdLit p in parseCmdPipe_loop expr p1)"

lemma parseCmdPipe_loop_stream_le:
  "length (stream (snd (parseCmdPipe_loop expr p))) \<le> length (stream p)"
proof (induction expr p rule: parseCmdPipe_loop.induct)
  case (1 expr p)
  obtain m p1 where m: "match Or p = (m, p1)" by (cases "match Or p")
  obtain right p2 where r: "parseCmdLit p1 = (right, p2)" by (cases "parseCmdLit p1")
  from m match_stream_le [of Or p] have a: "length (stream p1) \<le> length (stream p)" by simp
  from r parseCmdLit_stream_le [of p1] have b: "length (stream p2) \<le> length (stream p1)" by simp
  show ?case
  proof (cases m)
    case True
    with 1 m r
    have "length (stream (snd (parseCmdPipe_loop (BinaryCommand expr (current p1) right) p2)))
            \<le> length (stream p2)" by simp
    with True m r a b show ?thesis
      by (simp add: parseCmdPipe_loop.simps [of expr p])
  next
    case False
    with m a show ?thesis by (simp add: parseCmdPipe_loop.simps [of expr p])
  qed
qed

lemma parseCmdPipe_stream_le: "length (stream (snd (parseCmdPipe p))) \<le> length (stream p)"
proof -
  obtain expr p1 where e: "parseCmdLit p = (expr, p1)" by (cases "parseCmdLit p")
  with parseCmdLit_stream_le [of p] parseCmdPipe_loop_stream_le [of expr p1]
  show ?thesis by (simp add: parseCmdPipe_def)
qed

definition parseCmdNot :: "parser \<Rightarrow> Command \<times> parser" where
  "parseCmdNot p =
     (case match Not_tok p of
        (True, p1) \<Rightarrow>
          (let tok = current p1;
               (right, p2) = parseCmdPipe p1
           in (UnaryCommand tok right, p2))
      | (False, p1) \<Rightarrow> parseCmdPipe p1)"

lemma parseCmdNot_stream_le: "length (stream (snd (parseCmdNot p))) \<le> length (stream p)"
proof -
  obtain m p1 where m: "match Not_tok p = (m, p1)" by (cases "match Not_tok p")
  with match_stream_le [of Not_tok p] parseCmdPipe_stream_le [of p1]
  show ?thesis by (cases m) (simp_all add: parseCmdNot_def split_def Let_def)
qed

text \<open>The loop of \<^verbatim>\<open>parseCmdAnd\<close>, \<^verbatim>\<open>for p.match(token.LAND) { ... }\<close>.\<close>

function parseCmdAnd_loop :: "Command \<Rightarrow> parser \<Rightarrow> Command \<times> parser" where
  "parseCmdAnd_loop expr p =
     (case match LogicalAnd p of
        (True, p1) \<Rightarrow>
          (let tok = current p1;
               (right, p2) = parseCmdNot p1
           in parseCmdAnd_loop (LogicalCommand expr tok right) p2)
      | (False, p1) \<Rightarrow> (expr, p1))"
  by pat_completeness auto
termination
proof (relation "measure (\<lambda>(expr, p). length (stream p))", goal_cases)
  case 1
  show ?case by simp
next
  case (2 expr p m p1 tok' rp right p2)
  from 2 have "match LogicalAnd p = (True, p1)" by simp
  then have "length (stream p1) < length (stream p)"
    by (rule match_True_stream_less) (simp add: LogicalAnd_def Illegal_def)
  moreover from 2 parseCmdNot_stream_le [of p1] have "length (stream p2) \<le> length (stream p1)"
    by (metis snd_conv)
  ultimately show ?case by simp
qed

declare parseCmdAnd_loop.simps [simp del]

definition parseCmdAnd :: "parser \<Rightarrow> Command \<times> parser" where
  "parseCmdAnd p = (let (expr, p1) = parseCmdNot p in parseCmdAnd_loop expr p1)"

lemma parseCmdAnd_loop_stream_le:
  "length (stream (snd (parseCmdAnd_loop expr p))) \<le> length (stream p)"
proof (induction expr p rule: parseCmdAnd_loop.induct)
  case (1 expr p)
  obtain m p1 where m: "match LogicalAnd p = (m, p1)" by (cases "match LogicalAnd p")
  obtain right p2 where r: "parseCmdNot p1 = (right, p2)" by (cases "parseCmdNot p1")
  from m match_stream_le [of LogicalAnd p] have a: "length (stream p1) \<le> length (stream p)"
    by simp
  from r parseCmdNot_stream_le [of p1] have b: "length (stream p2) \<le> length (stream p1)" by simp
  show ?case
  proof (cases m)
    case True
    with 1 m r
    have "length (stream (snd (parseCmdAnd_loop (LogicalCommand expr (current p1) right) p2)))
            \<le> length (stream p2)" by simp
    with True m r a b show ?thesis
      by (simp add: parseCmdAnd_loop.simps [of expr p])
  next
    case False
    with m a show ?thesis by (simp add: parseCmdAnd_loop.simps [of expr p])
  qed
qed

lemma parseCmdAnd_stream_le: "length (stream (snd (parseCmdAnd p))) \<le> length (stream p)"
proof -
  obtain expr p1 where e: "parseCmdNot p = (expr, p1)" by (cases "parseCmdNot p")
  with parseCmdNot_stream_le [of p] parseCmdAnd_loop_stream_le [of expr p1]
  show ?thesis by (simp add: parseCmdAnd_def)
qed

text \<open>The loop of \<^verbatim>\<open>parseCmdLor\<close>, \<^verbatim>\<open>for p.match(token.LOR) { ... }\<close>.\<close>

function parseCmdLor_loop :: "Command \<Rightarrow> parser \<Rightarrow> Command \<times> parser" where
  "parseCmdLor_loop expr p =
     (case match LogicalOr p of
        (True, p1) \<Rightarrow>
          (let tok = current p1;
               (right, p2) = parseCmdAnd p1
           in parseCmdLor_loop (LogicalCommand expr tok right) p2)
      | (False, p1) \<Rightarrow> (expr, p1))"
  by pat_completeness auto
termination
proof (relation "measure (\<lambda>(expr, p). length (stream p))", goal_cases)
  case 1
  show ?case by simp
next
  case (2 expr p m p1 tok' rp right p2)
  from 2 have "match LogicalOr p = (True, p1)" by simp
  then have "length (stream p1) < length (stream p)"
    by (rule match_True_stream_less) (simp add: LogicalOr_def Illegal_def)
  moreover from 2 parseCmdAnd_stream_le [of p1] have "length (stream p2) \<le> length (stream p1)"
    by (metis snd_conv)
  ultimately show ?case by simp
qed

declare parseCmdLor_loop.simps [simp del]

definition parseCmdLor :: "parser \<Rightarrow> Command \<times> parser" where
  "parseCmdLor p = (let (expr, p1) = parseCmdAnd p in parseCmdLor_loop expr p1)"

definition parseCommand :: "parser \<Rightarrow> Command \<times> parser" where
  "parseCommand p = parseCmdLor p"

definition parseCmdStmt :: "parser \<Rightarrow> Statement \<times> parser" where
  "parseCmdStmt p = (let (c, p1) = parseCommand p in (CmdStatement c, p1))"

subsection \<open>Statements and programs\<close>

text \<open>
  \<^verbatim>\<open>parseStatement\<close> and \<^verbatim>\<open>parseBlockStmt\<close> call each other, and neither loop of
  \<^verbatim>\<open>parseBlockStmt\<close> and \<^verbatim>\<open>parseProgram\<close> is bounded by the stream, so these functions
  take fuel: every call and every loop iteration uses one unit, and \<open>None\<close> is the
  answer of a run that has not returned within its fuel.

  \<open>parseStatement_end\<close> is the code of \<^verbatim>\<open>parseStatement\<close> after its \<^verbatim>\<open>switch\<close>: the
  terminator check and the return of the statement.
\<close>

definition parseStatement_end :: "Statement option \<Rightarrow> parser \<Rightarrow> Statement option \<times> parser" where
  "parseStatement_end stmt p =
     (let (m, p1) = match Semicolon p;
          p2 = (if \<not> m
                then error (''unexpected token '' @ Type_String (pTok p1) @ '', expected ''
                            @ Type_String Semicolon) p1
                else p1)
      in (stmt, p2))"

fun parseStatement :: "nat \<Rightarrow> parser \<Rightarrow> (Statement option \<times> parser) option"
and parseBlockStmt :: "nat \<Rightarrow> parser \<Rightarrow> (Statement \<times> parser) option"
and parseBlockStmt_loop ::
      "nat \<Rightarrow> Statement option list \<Rightarrow> parser \<Rightarrow> (Statement option list \<times> parser) option"
where
  "parseStatement 0 p = None"
| "parseStatement (Suc n) p =
     (if pTok p = LeftBrace then
        (case parseBlockStmt n p of
           None \<Rightarrow> None
         | Some (stmt, p1) \<Rightarrow> Some (parseStatement_end (Some stmt) p1))
      else if pTok p = Let_tok then Some (parseStatement_end None p)
      else if pTok p = If_tok then Some (parseStatement_end None p)
      else if pTok p = For then Some (parseStatement_end None p)
      else if pTok p = String \<or> pTok p = Not_tok then
        (let (stmt, p1) = parseCmdStmt p in Some (parseStatement_end (Some stmt) p1))
      else
        Some (None, next (error (''illegal token '' @ Type_String (pTok p) @ '' at line start'') p)))"
| "parseBlockStmt 0 p = None"
| "parseBlockStmt (Suc n) p =
     (case parseBlockStmt_loop n [] (next p) of
        None \<Rightarrow> None
      | Some (stmts, p1) \<Rightarrow> Some (BlockStatement stmts, p1))"
| "parseBlockStmt_loop 0 stmts p = None"
| "parseBlockStmt_loop (Suc n) stmts p =
     (if Type (tok p) \<noteq> RightBrace then
        (case parseStatement n p of
           None \<Rightarrow> None
         | Some (stmt, p1) \<Rightarrow> parseBlockStmt_loop n (stmts @ [stmt]) (next p1))
      else Some (stmts, p))"

text \<open>\<^verbatim>\<open>parseProgram\<close>: \<^verbatim>\<open>for !p.atEnd() { ... append(..., p.parseStatement()) }\<close>.\<close>

fun parseProgram_loop ::
  "nat \<Rightarrow> Statement option list \<Rightarrow> parser \<Rightarrow> (Statement option list \<times> parser) option" where
  "parseProgram_loop 0 stmts p = None"
| "parseProgram_loop (Suc n) stmts p =
     (if \<not> atEnd p then
        (case parseStatement n p of
           None \<Rightarrow> None
         | Some (stmt, p1) \<Rightarrow> parseProgram_loop n (stmts @ [stmt]) p1)
      else Some (stmts, p))"

definition parseProgram :: "nat \<Rightarrow> parser \<Rightarrow> (Statement option list \<times> parser) option" where
  "parseProgram n p = parseProgram_loop n [] p"

text \<open>A token of a kind with a literal, for the examples (the parser reads no position).\<close>

definition tk :: "Type \<Rightarrow> string \<Rightarrow> Token" where
  "tk k s = \<lparr>Type = k, Literal = s, Position = \<lparr>Line = 1, Col = 1\<rparr>\<rparr>"

section \<open>Lexer (package lexer)\<close>

text \<open>
  A Go string is a sequence of bytes, and so is a HOL \<open>string\<close>; a rune is an integer.
  Offsets are indices into the source.  The error handler is a callback of the
  caller's: the model keeps whether one was supplied (\<open>err\<close>) and the list of the
  calls made to it (\<open>errCalls\<close>).  The token channel is the list of the tokens sent so
  far, oldest first, and a flag for \<^verbatim>\<open>close\<close>.
\<close>

datatype LexError = ErrNUL | ErrBOM | ErrEnc

record lexer =
  src :: string
  ch :: int
  wd :: nat
  insertSemi :: bool
  Tokens :: "Token list"
  closed :: bool
  err :: bool
  errCalls :: "(Position \<times> LexError) list"
  offset :: nat
  rdOffset :: nat
  start :: Position
  prev :: Position
  pos :: Position
  ErrCount :: int

definition eof :: int where "eof = - 1"
definition bom :: int where "bom = 0xFEFF"

text \<open>\<^verbatim>\<open>Lex\<close>, up to the start of the lexer's goroutine; the fields it leaves out are zero.\<close>

definition Lex :: "string \<Rightarrow> bool \<Rightarrow> lexer" where
  "Lex s e =
     (let origin = \<lparr>Line = 1, Col = 1\<rparr>
      in \<lparr>src = s, ch = 0, wd = 0, insertSemi = False, Tokens = [], closed = False,
          err = e, errCalls = [], offset = 0, rdOffset = 0,
          start = origin, prev = \<lparr>Line = 0, Col = 0\<rparr>, pos = origin, ErrCount = 0\<rparr>)"

text \<open>\<^verbatim>\<open>literal\<close> is the slice \<^verbatim>\<open>src[offset:rdOffset]\<close>, in range wherever \<open>offset \<le> rdOffset \<le> length src\<close>, which every function below keeps.\<close>

definition literal :: "lexer \<Rightarrow> string" where
  "literal l = take (rdOffset l - offset l) (drop (offset l) (src l))"

definition ignore :: "lexer \<Rightarrow> lexer" where
  "ignore l = l\<lparr>offset := rdOffset l, start := pos l\<rparr>"

definition emit :: "Type \<Rightarrow> lexer \<Rightarrow> lexer" where
  "emit t l =
     ignore (l\<lparr>Tokens := Tokens l @ [\<lparr>Type = t, Literal = literal l, Position = start l\<rparr>]\<rparr>)"

text \<open>The lexer's own \<^verbatim>\<open>error\<close>, \<^verbatim>\<open>atEnd\<close> and \<^verbatim>\<open>peek\<close> (the parser has its own).\<close>

definition lexer_error :: "LexError \<Rightarrow> lexer \<Rightarrow> lexer" where
  "lexer_error e l =
     (let l1 = l\<lparr>ErrCount := ErrCount l + 1\<rparr>
      in if err l1 then l1\<lparr>errCalls := errCalls l1 @ [(pos l1, e)]\<rparr> else l1)"

definition lexer_atEnd :: "lexer \<Rightarrow> bool" where
  "lexer_atEnd l \<longleftrightarrow> rdOffset l \<ge> length (src l)"

definition peek :: "lexer \<Rightarrow> int" where
  "peek l = (if lexer_atEnd l then eof else of_char (src l ! rdOffset l))"

text \<open>
  \<^verbatim>\<open>utf8.DecodeRuneInString\<close> of the Go standard library: the rune at the head of
  the string and its width in bytes, \<open>(RuneError, 1)\<close> for an encoding that is not
  valid, \<open>(RuneError, 0)\<close> for the empty string.  The second byte's range depends
  on the first, which rules out overlong forms, surrogates and values past
  \<open>0x10FFFF\<close>.
\<close>

definition RuneError :: int where "RuneError = 0xFFFD"
definition RuneSelf :: int where "RuneSelf = 0x80"

definition DecodeRuneInString :: "string \<Rightarrow> int \<times> nat" where
  "DecodeRuneInString s =
     (case s of
        [] \<Rightarrow> (RuneError, 0)
      | c0 # _ \<Rightarrow>
          (let s0 = (of_char c0 :: nat) in
           if s0 < 0x80 then (int s0, 1)
           else if s0 < 0xC2 \<or> 0xF4 < s0 then (RuneError, 1)
           else
             (let sz = (if s0 < 0xE0 then 2 else if s0 < 0xF0 then 3 else 4 :: nat);
                  lo = (if s0 = 0xE0 then 0xA0 else if s0 = 0xF0 then 0x90 else 0x80 :: nat);
                  hi = (if s0 = 0xED then 0x9F else if s0 = 0xF4 then 0x8F else 0xBF :: nat)
              in if length s < sz then (RuneError, 1)
                 else
                   (let s1 = (of_char (s ! 1) :: nat) in
                    if s1 < lo \<or> hi < s1 then (RuneError, 1)
                    else if sz \<le> 2 then (int (s0 mod 32 * 64 + s1 mod 64), 2)
                    else
                      (let s2 = (of_char (s ! 2) :: nat) in
                       if s2 < 0x80 \<or> 0xBF < s2 then (RuneError, 1)
                       else if sz \<le> 3
                         then (int (s0 mod 16 * 4096 + s1 mod 64 * 64 + s2 mod 64), 3)
                       else
                         (let s3 = (of_char (s ! 3) :: nat) in
                          if s3 < 0x80 \<or> 0xBF < s3 then (RuneError, 1)
                          else (int (s0 mod 8 * 262144 + s1 mod 64 * 4096
                                     + s2 mod 64 * 64 + s3 mod 64), 4)))))))"

text \<open>The code of \<^verbatim>\<open>consume\<close> from its label \<^verbatim>\<open>advance\<close> on, for the rune \<open>r\<close> of width \<open>w\<close>.\<close>

definition advance :: "int \<Rightarrow> nat \<Rightarrow> lexer \<Rightarrow> lexer" where
  "advance r w l =
     (let l1 = l\<lparr>ch := r, wd := w, prev := pos l, rdOffset := rdOffset l + w,
                 pos := (pos l)\<lparr>Col := Col (pos l) + int w\<rparr>\<rparr>
      in if r = 0x0A then l1\<lparr>pos := NextLine (pos l1)\<rparr> else l1)"

definition consume :: "lexer \<Rightarrow> lexer" where
  "consume l =
     (if lexer_atEnd l then l\<lparr>ch := eof, wd := 0\<rparr>
      else
        (let r = (of_char (src l ! rdOffset l) :: int) in
         if r = 0 then advance r 1 (lexer_error ErrNUL l)
         else if r < RuneSelf then advance r 1 l
         else
           (let (r, w) = DecodeRuneInString (drop (rdOffset l) (src l)) in
            if r = RuneError \<and> w = 1 then advance r w (lexer_error ErrEnc l)
            else advance r w (if r = bom \<and> offset l > 0 then lexer_error ErrBOM l else l))))"

text \<open>
  \<^verbatim>\<open>backup\<close>.  Every \<^verbatim>\<open>consume\<close> leaves \<open>wd \<le> rdOffset\<close> (lemma \<open>consume_wd_le\<close>), so
  the subtraction is the one of Go's integers wherever \<^verbatim>\<open>backup\<close> follows one.
\<close>

definition backup :: "lexer \<Rightarrow> lexer" where
  "backup l = l\<lparr>rdOffset := rdOffset l - wd l, pos := prev l\<rparr>"

text \<open>
  \<^verbatim>\<open>unicode.IsSpace\<close>, \<^verbatim>\<open>unicode.IsLetter\<close> and \<^verbatim>\<open>unicode.IsDigit\<close> of the Go standard
  library.  Up to \<open>0xFF\<close> Go decides them from its Latin-1 table, written out here.
  Beyond it \<^verbatim>\<open>IsSpace\<close> has a dozen code points; the letters and digits beyond
  Latin-1 are the range tables \<^verbatim>\<open>unicode.Letter\<close> and \<^verbatim>\<open>unicode.Digit\<close>, which the
  lexer takes as a parameter.
\<close>

record unicode =
  Letter :: "int \<Rightarrow> bool"
  Digit :: "int \<Rightarrow> bool"

definition unicode_IsSpace :: "int \<Rightarrow> bool" where
  "unicode_IsSpace r \<longleftrightarrow>
     (if 0 \<le> r \<and> r \<le> 0xFF then r \<in> {0x09, 0x0A, 0x0B, 0x0C, 0x0D, 0x20, 0x85, 0xA0}
      else r = 0x1680 \<or> (0x2000 \<le> r \<and> r \<le> 0x200A) \<or> r = 0x2028 \<or> r = 0x2029
           \<or> r = 0x202F \<or> r = 0x205F \<or> r = 0x3000)"

definition unicode_IsLetter :: "unicode \<Rightarrow> int \<Rightarrow> bool" where
  "unicode_IsLetter U r \<longleftrightarrow>
     (if 0 \<le> r \<and> r \<le> 0xFF
      then (0x41 \<le> r \<and> r \<le> 0x5A) \<or> (0x61 \<le> r \<and> r \<le> 0x7A) \<or> r = 0xAA \<or> r = 0xB5
           \<or> r = 0xBA \<or> (0xC0 \<le> r \<and> r \<le> 0xD6) \<or> (0xD8 \<le> r \<and> r \<le> 0xF6) \<or> 0xF8 \<le> r
      else 0xFF < r \<and> r \<le> 0x10FFFF \<and> Letter U r)"

definition unicode_IsDigit :: "unicode \<Rightarrow> int \<Rightarrow> bool" where
  "unicode_IsDigit U r \<longleftrightarrow>
     (if 0 \<le> r \<and> r \<le> 0xFF then 0x30 \<le> r \<and> r \<le> 0x39
      else 0xFF < r \<and> r \<le> 0x10FFFF \<and> Digit U r)"

text \<open>
  The conversion \<^verbatim>\<open>string(r)\<close> of a rune: its UTF-8 encoding, and that of
  \<open>U+FFFD\<close> for a value that is no code point.
\<close>

definition string_of_rune :: "int \<Rightarrow> string" where
  "string_of_rune r =
     (let n = nat r in
      if r < 0 \<or> 0x10FFFF < r \<or> (0xD800 \<le> r \<and> r \<le> 0xDFFF)
        then [CHR 0xEF, CHR 0xBF, CHR 0xBD]
      else if n < 0x80 then [char_of n]
      else if n < 0x800 then [char_of (0xC0 + n div 64), char_of (0x80 + n mod 64)]
      else if n < 0x10000
        then [char_of (0xE0 + n div 4096), char_of (0x80 + n div 64 mod 64),
              char_of (0x80 + n mod 64)]
      else [char_of (0xF0 + n div 262144), char_of (0x80 + n div 4096 mod 64),
            char_of (0x80 + n div 64 mod 64), char_of (0x80 + n mod 64)])"

definition isAlphabet :: "int \<Rightarrow> bool" where
  "isAlphabet r \<longleftrightarrow>
     r > of_char (CHR ''A'') \<and> r < of_char (CHR ''Z'')
     \<or> r > of_char (CHR ''a'') \<and> r < of_char (CHR ''z'')"

definition isIdentStart :: "unicode \<Rightarrow> int \<Rightarrow> bool" where
  "isIdentStart U r \<longleftrightarrow> r = of_char (CHR ''_'') \<or> unicode_IsLetter U r"

definition isIdent :: "unicode \<Rightarrow> int \<Rightarrow> bool" where
  "isIdent U r \<longleftrightarrow> isIdentStart U r \<or> unicode_IsDigit U r"

lemma DecodeRuneInString_width: "s \<noteq> [] \<Longrightarrow> 1 \<le> snd (DecodeRuneInString s)"
  by (cases s) (simp_all add: DecodeRuneInString_def Let_def)

lemma consume_src: "src (consume l) = src l"
  by (simp add: consume_def advance_def lexer_error_def Let_def split_def)

lemma consume_advances: "\<not> lexer_atEnd l \<Longrightarrow> rdOffset l < rdOffset (consume l)"
proof -
  assume a: "\<not> lexer_atEnd l"
  then have "drop (rdOffset l) (src l) \<noteq> []" by (simp add: lexer_atEnd_def)
  from DecodeRuneInString_width [OF this] a show ?thesis
    by (simp add: consume_def advance_def lexer_error_def Let_def split_def)
qed

lemma consume_mono: "rdOffset l \<le> rdOffset (consume l)"
  using consume_advances [of l]
  by (cases "lexer_atEnd l") (simp_all add: consume_def)

lemma consume_wd_le: "wd (consume l) \<le> rdOffset (consume l)"
  by (simp add: consume_def advance_def lexer_error_def Let_def split_def)


lemma of_char_int_nonneg: "0 \<le> (of_char c :: int)"
  by (metis of_nat_of_char of_nat_0_le_iff)


lemma peek_eof: "lexer_atEnd l \<Longrightarrow> peek l = eof"
  by (simp add: peek_def)

lemma not_eof_simps:
  "\<not> unicode_IsSpace eof" "\<not> isAlphabet eof" "\<not> isIdent U eof" "\<not> unicode_IsDigit U eof"
  by (simp_all add: unicode_IsSpace_def isAlphabet_def isIdent_def isIdentStart_def
        unicode_IsLetter_def unicode_IsDigit_def eof_def)

lemma consume_measure:
  "\<not> lexer_atEnd l \<Longrightarrow>
   length (src (consume l)) - rdOffset (consume l) < length (src l) - rdOffset l"
  using consume_advances [of l] by (simp add: consume_src lexer_atEnd_def)

text \<open>
  Modelled from the spec: \<^verbatim>\<open>consumeSpace\<close>, \<^verbatim>\<open>consumeWord\<close>, \<^verbatim>\<open>consumeIdent\<close>,
  \<^verbatim>\<open>consumeString\<close> and \<^verbatim>\<open>consumeComment\<close> are not among the sources.  The spec has:
  whitespace is skipped and never emitted; a keyword-shaped word is consumed; an
  identifier scan runs over identifier runes; a double quote begins a string scan;
  \<open>#\<close> begins a comment consumed through the end of the line.  Each is the loop
  over \<^verbatim>\<open>peek\<close> and \<^verbatim>\<open>consume\<close> that \<^verbatim>\<open>lexNum\<close> has in the sources; the string and
  the comment stop after the closing rune, or at the end of the source.
\<close>

function consumeSpace :: "lexer \<Rightarrow> lexer" where
  "consumeSpace l = (if unicode_IsSpace (peek l) then consumeSpace (consume l) else ignore l)"
  by pat_completeness auto
termination
proof (relation "measure (\<lambda>l. length (src l) - rdOffset l)", goal_cases)
  case 1
  show ?case by simp
next
  case (2 l)
  then have "\<not> lexer_atEnd l" using peek_eof [of l] not_eof_simps by auto
  then show ?case using consume_measure by simp
qed

declare consumeSpace.simps [simp del]

text \<open>Modelled from the spec: \<^verbatim>\<open>consumeWord\<close>, over the runes \<^verbatim>\<open>isAlphabet\<close> accepts.\<close>

function consumeWord :: "lexer \<Rightarrow> lexer" where
  "consumeWord l = (if isAlphabet (peek l) then consumeWord (consume l) else l)"
  by pat_completeness auto
termination
proof (relation "measure (\<lambda>l. length (src l) - rdOffset l)", goal_cases)
  case 1
  show ?case by simp
next
  case (2 l)
  then have "\<not> lexer_atEnd l" using peek_eof [of l] not_eof_simps by auto
  then show ?case using consume_measure by simp
qed

declare consumeWord.simps [simp del]

text \<open>Modelled from the spec: \<^verbatim>\<open>consumeIdent\<close>, over the runes \<^verbatim>\<open>isIdent\<close> accepts.\<close>

function consumeIdent :: "unicode \<Rightarrow> lexer \<Rightarrow> lexer" where
  "consumeIdent U l = (if isIdent U (peek l) then consumeIdent U (consume l) else l)"
  by pat_completeness auto
termination
proof (relation "measure (\<lambda>(U, l). length (src l) - rdOffset l)", goal_cases)
  case 1
  show ?case by simp
next
  case (2 U l)
  then have "\<not> lexer_atEnd l" using peek_eof [of l] not_eof_simps by auto
  then show ?case using consume_measure by simp
qed

declare consumeIdent.simps [simp del]

text \<open>Modelled from the spec: \<^verbatim>\<open>consumeString\<close>, through the closing double quote.\<close>

function consumeString :: "lexer \<Rightarrow> lexer" where
  "consumeString l =
     (let l1 = consume l
      in if ch l1 = 0x22 \<or> ch l1 = eof then l1 else consumeString l1)"
  by pat_completeness auto
termination
proof (relation "measure (\<lambda>l. length (src l) - rdOffset l)", goal_cases)
  case 1
  show ?case by simp
next
  case (2 l l1)
  then have "\<not> lexer_atEnd l" by (auto simp: consume_def)
  with 2 show ?case using consume_measure [of l] by simp
qed

declare consumeString.simps [simp del]

text \<open>Modelled from the spec: \<^verbatim>\<open>consumeComment\<close>, through the end of the line.\<close>

function consumeComment :: "lexer \<Rightarrow> lexer" where
  "consumeComment l =
     (let l1 = consume l
      in if ch l1 = 0x0A \<or> ch l1 = eof then l1 else consumeComment l1)"
  by pat_completeness auto
termination
proof (relation "measure (\<lambda>l. length (src l) - rdOffset l)", goal_cases)
  case 1
  show ?case by simp
next
  case (2 l l1)
  then have "\<not> lexer_atEnd l" by (auto simp: consume_def)
  with 2 show ?case using consume_measure [of l] by simp
qed

declare consumeComment.simps [simp del]

text \<open>The loop of \<^verbatim>\<open>lexNum\<close>, \<^verbatim>\<open>for unicode.IsDigit(l.peek()) { l.consume() }\<close>.\<close>

function lexNum_loop :: "unicode \<Rightarrow> lexer \<Rightarrow> lexer" where
  "lexNum_loop U l = (if unicode_IsDigit U (peek l) then lexNum_loop U (consume l) else l)"
  by pat_completeness auto
termination
proof (relation "measure (\<lambda>(U, l). length (src l) - rdOffset l)", goal_cases)
  case 1
  show ?case by simp
next
  case (2 U l)
  then have "\<not> lexer_atEnd l" using peek_eof [of l] not_eof_simps by auto
  then show ?case using consume_measure by simp
qed

declare lexNum_loop.simps [simp del]
text \<open>
  A state function returns the next one, or \<^verbatim>\<open>nil\<close>; \<open>stateFunc\<close> names the five state
  functions and \<open>None\<close> is \<^verbatim>\<open>nil\<close>.
\<close>

datatype stateFunc = LexBase | LexStmt | LexNum | LexStmtOp | LexCmd

definition lexCmd :: "lexer \<Rightarrow> lexer \<times> stateFunc option" where
  "lexCmd l = (l, None)"

definition lexBase :: "lexer \<Rightarrow> lexer \<times> stateFunc option" where
  "lexBase l =
     (let r = peek l;
          l1 = (if unicode_IsSpace r then consumeSpace l else l)
      in if isAlphabet r then
           (let l2 = consumeWord l1;
                word = literal l2
            in if IsKeyword word then (emit (Lookup word) l2, Some LexStmt)
               else (backup l2, Some LexCmd))
         else (l1, Some LexCmd))"

text \<open>
  The kinds the lexer names are those of an earlier revision of the catalogue
  (\<^verbatim>\<open>ADD\<close>, \<^verbatim>\<open>LSS\<close>, \<^verbatim>\<open>LPAREN\<close>, \<^verbatim>\<open>RBRACK\<close>, \<^verbatim>\<open>FLOAT\<close>, ...); each is written here by its
  name in the catalogue above, which spells \<^verbatim>\<open>FLOAT\<close> for \<open>Number\<close>.
\<close>

definition lexStmt :: "unicode \<Rightarrow> lexer \<Rightarrow> lexer \<times> stateFunc option" where
  "lexStmt U l =
     (let l1 = consume l in
      if unicode_IsSpace (ch l1) then (consumeSpace l1, Some LexStmt)
      else if isIdentStart U (ch l1) then
        (let l2 = consumeIdent U l1 in (emit (Lookup (literal l2)) l2, Some LexStmt))
      else if unicode_IsDigit U (ch l1) then (l1, Some LexNum)
      else if ch l1 = 0x22 then (emit String (consumeString l1), Some LexStmt)
      else if IsOperator (string_of_rune (ch l1)) then (l1, Some LexStmtOp)
      else if ch l1 = of_char (CHR ''#'') then (emit Comment (consumeComment l1), Some LexStmt)
      else if ch l1 = eof then (emit Eof l1, None)
      else (emit Illegal l1, Some LexStmt))"

definition lexNum :: "unicode \<Rightarrow> lexer \<Rightarrow> lexer \<times> stateFunc option" where
  "lexNum U l = (emit Number (lexNum_loop U l), Some LexStmt)"

text \<open>In \<^verbatim>\<open>lexStmtOp\<close> the variable \<^verbatim>\<open>t\<close> starts as the zero kind, \<open>Illegal\<close>.\<close>

definition lexStmtOp :: "lexer \<Rightarrow> lexer \<times> stateFunc option" where
  "lexStmtOp l =
     (let t =
        (if ch l = of_char (CHR ''+'') then Addition
         else if ch l = of_char (CHR ''-'') then Subtraction
         else if ch l = of_char (CHR ''*'') then Multiplication
         else if ch l = of_char (CHR ''/'') then Quotient
         else if ch l = of_char (CHR ''%'') then Remainder
         else if ch l = of_char (CHR ''&'') then And
         else if ch l = of_char (CHR ''|'') then Or
         else if ch l = of_char (CHR ''^'') then Xor
         else if ch l = of_char (CHR ''<'') then LessThan
         else if ch l = of_char (CHR ''>'') then GreaterThan
         else if ch l = of_char (CHR ''='') then Assign
         else if ch l = of_char (CHR ''!'') then Not_tok
         else if ch l = of_char (CHR ''('') then LeftParen
         else if ch l = of_char (CHR ''['') then LeftParen
         else if ch l = of_char (CHR ''{'') then LeftBrace
         else if ch l = of_char (CHR '','') then Comma
         else if ch l = of_char (CHR '')'') then RightParen
         else if ch l = of_char (CHR '']'') then RightBrack
         else if ch l = of_char (CHR ''}'') then RightBrace
         else if ch l = of_char (CHR '';'') then Semicolon
         else if ch l = of_char (CHR '':'') then Colon
         else Illegal)
      in (emit t l, Some LexStmt))"

definition state :: "unicode \<Rightarrow> stateFunc \<Rightarrow> lexer \<Rightarrow> lexer \<times> stateFunc option" where
  "state U f l =
     (case f of
        LexBase \<Rightarrow> lexBase l
      | LexStmt \<Rightarrow> lexStmt U l
      | LexNum \<Rightarrow> lexNum U l
      | LexStmtOp \<Rightarrow> lexStmtOp l
      | LexCmd \<Rightarrow> lexCmd l)"

lemma emit_src_rdOffset: "src (emit t l) = src l" "rdOffset (emit t l) = rdOffset l"
  by (simp_all add: emit_def ignore_def)

lemma consumeSpace_keeps:
  "src (consumeSpace l) = src l \<and> rdOffset l \<le> rdOffset (consumeSpace l)"
proof (induction l rule: consumeSpace.induct)
  case (1 l)
  then show ?case
    using consume_mono [of l]
    by (cases "unicode_IsSpace (peek l)")
       (auto simp: consumeSpace.simps [of l] consume_src ignore_def)
qed

lemma consumeIdent_keeps:
  "src (consumeIdent U l) = src l \<and> rdOffset l \<le> rdOffset (consumeIdent U l)"
proof (induction U l rule: consumeIdent.induct)
  case (1 U l)
  then show ?case
    using consume_mono [of l]
    by (cases "isIdent U (peek l)") (auto simp: consumeIdent.simps [of U l] consume_src)
qed

lemma lexNum_loop_keeps:
  "src (lexNum_loop U l) = src l \<and> rdOffset l \<le> rdOffset (lexNum_loop U l)"
proof (induction U l rule: lexNum_loop.induct)
  case (1 U l)
  then show ?case
    using consume_mono [of l]
    by (cases "unicode_IsDigit U (peek l)") (auto simp: lexNum_loop.simps [of U l] consume_src)
qed

lemma consumeString_keeps:
  "src (consumeString l) = src l \<and> rdOffset l \<le> rdOffset (consumeString l)"
proof (induction l rule: consumeString.induct)
  case (1 l)
  then show ?case
    using consume_mono [of l]
    by (cases "ch (consume l) = 0x22 \<or> ch (consume l) = eof")
       (auto simp: consumeString.simps [of l] consume_src Let_def)
qed

lemma consumeComment_keeps:
  "src (consumeComment l) = src l \<and> rdOffset l \<le> rdOffset (consumeComment l)"
proof (induction l rule: consumeComment.induct)
  case (1 l)
  then show ?case
    using consume_mono [of l]
    by (cases "ch (consume l) = 0x0A \<or> ch (consume l) = eof")
       (auto simp: consumeComment.simps [of l] consume_src Let_def)
qed
text \<open>
  The loop of \<^verbatim>\<open>run\<close> ends: \<open>lexBase\<close> runs once, and between two visits of \<open>lexStmt\<close>
  at least one rune is consumed.
\<close>

fun run_rank :: "stateFunc \<Rightarrow> nat" where
  "run_rank LexBase = 1"
| "run_rank f = 0"

fun run_size :: "stateFunc \<Rightarrow> lexer \<Rightarrow> nat" where
  "run_size LexStmt l = 2 * (length (src l) - rdOffset l) + 1"
| "run_size LexNum l = 2 * (length (src l) - rdOffset l) + 2"
| "run_size LexStmtOp l = 2 * (length (src l) - rdOffset l) + 2"
| "run_size f l = 0"

lemma IsOperator_eof: "\<not> IsOperator (string_of_rune eof)"
  by (simp add: IsOperator_def string_of_rune_def eof_def token_def tokens_eq
        Type_IsOperator_def Type_defs)

lemma consume_not_eof: "ch (consume l) \<noteq> eof \<Longrightarrow> \<not> lexer_atEnd l"
  by (auto simp: consume_def)

lemma lexStmt_decreases:
  assumes "lexStmt U l = (l1, Some f1)"
  shows "run_size f1 l1 < run_size LexStmt l"
proof -
  let ?c = "consume l"
  have ne: "ch ?c \<noteq> eof"
  proof
    assume e: "ch ?c = eof"
    with assms not_eof_simps IsOperator_eof show False
      by (simp add: lexStmt_def Let_def isIdentStart_def isIdent_def eof_def
            unicode_IsLetter_def split: if_splits)
  qed
  then have na: "\<not> lexer_atEnd l" by (rule consume_not_eof)
  then have lt: "rdOffset l < rdOffset ?c" by (rule consume_advances)
  from na have len: "rdOffset l < length (src l)" by (simp add: lexer_atEnd_def)
  have k: "src l1 = src l \<and> rdOffset ?c \<le> rdOffset l1"
    using assms consumeSpace_keeps [of ?c] consumeIdent_keeps [of U ?c]
      consumeString_keeps [of ?c] consumeComment_keeps [of ?c]
    by (auto simp: lexStmt_def Let_def emit_src_rdOffset consume_src split: if_splits)
  from assms have "f1 \<in> {LexStmt, LexNum, LexStmtOp}"
    by (auto simp: lexStmt_def Let_def split: if_splits)
  with k lt len show ?thesis by auto
qed

lemma state_decreases:
  assumes "state U f l = (l1, Some f1)"
  shows "run_rank f1 < run_rank f \<or> run_rank f1 = run_rank f \<and> run_size f1 l1 < run_size f l"
proof (cases f)
  case LexBase
  with assms have "f1 \<in> {LexStmt, LexCmd}"
    by (auto simp: state_def lexBase_def Let_def split: if_splits)
  with LexBase show ?thesis by auto
next
  case LexStmt
  with assms have s: "lexStmt U l = (l1, Some f1)" by (simp add: state_def)
  then have "f1 \<in> {LexStmt, LexNum, LexStmtOp}"
    by (auto simp: lexStmt_def Let_def split: if_splits)
  with lexStmt_decreases [OF s] LexStmt show ?thesis by auto
next
  case LexNum
  with assms lexNum_loop_keeps [of U l] show ?thesis
    by (auto simp: state_def lexNum_def emit_src_rdOffset)
next
  case LexStmtOp
  with assms show ?thesis
    by (auto simp: state_def lexStmtOp_def emit_src_rdOffset Let_def)
next
  case LexCmd
  with assms show ?thesis by (simp add: state_def lexCmd_def)
qed

text \<open>
  \<^verbatim>\<open>run\<close>: \<^verbatim>\<open>for state := lexBase; state != nil; { state = state(l) }\<close>, then
  \<^verbatim>\<open>close(l.Tokens)\<close>.
\<close>

function run_loop :: "unicode \<Rightarrow> stateFunc \<Rightarrow> lexer \<Rightarrow> lexer" where
  "run_loop U f l =
     (case state U f l of
        (l1, None) \<Rightarrow> l1
      | (l1, Some f1) \<Rightarrow> run_loop U f1 l1)"
  by pat_completeness auto
termination
proof (relation "measures [\<lambda>(U, f, l). run_rank f, \<lambda>(U, f, l). run_size f l]", goal_cases)
  case 1
  show ?case by simp
next
  case (2 U f l l1 nf f1)
  then have "state U f l = (l1, Some f1)" by simp
  from state_decreases [OF this] show ?case by auto
qed

declare run_loop.simps [simp del]

definition run :: "unicode \<Rightarrow> lexer \<Rightarrow> lexer" where
  "run U l = (run_loop U LexBase l)\<lparr>closed := True\<rparr>"

text \<open>Empty tables, for the examples: no letter and no digit beyond Latin-1.\<close>

definition noTables :: unicode where
  "noTables = \<lparr>Letter = (\<lambda>r. False), Digit = (\<lambda>r. False)\<rparr>"

text \<open>
  The lexer as \<open>lexBase\<close> leaves it after the keyword \<open>if\<close> at the head of the source
  \<open>if\<close> \<open>s\<close> (lemma \<open>lexBase_if_bracket\<close>), for the examples.
\<close>

definition afterIf :: "string \<Rightarrow> lexer" where
  "afterIf s =
     \<lparr>src = ''if'' @ s, ch = of_char (CHR ''f''), wd = 1, insertSemi = False,
      Tokens = [\<lparr>Type = If_tok, Literal = ''if'', Position = \<lparr>Line = 1, Col = 1\<rparr>\<rparr>],
      closed = False, err = True, errCalls = [], offset = 2, rdOffset = 2,
      start = \<lparr>Line = 1, Col = 3\<rparr>, prev = \<lparr>Line = 1, Col = 2\<rparr>,
      pos = \<lparr>Line = 1, Col = 3\<rparr>, ErrCount = 0\<rparr>"

text \<open>
  The runes of a Go string, as \<^verbatim>\<open>for _, r := range s\<close> yields them: one rune for each
  valid encoding, \<open>RuneError\<close> for each byte that begins none.
\<close>

function runes :: "string \<Rightarrow> int list" where
  "runes s =
     (if s = [] then []
      else (let (r, w) = DecodeRuneInString s in r # runes (drop w s)))"
  by pat_completeness auto
termination
proof (relation "measure length", goal_cases)
  case 1
  show ?case by simp
next
  case (2 s rw r w)
  then have "w = snd (DecodeRuneInString s)" by (metis snd_conv)
  with 2 DecodeRuneInString_width [of s] show ?case by (cases s) auto
qed

declare runes.simps [simp del]

subsection \<open>Faults, as the specification has them\<close>








section \<open>Verification\<close>

subsection \<open>The spelling table\<close>

lemma tokens_distinct: "distinct (filter (\<lambda>v. v \<noteq> []) tokens)"
  by (simp add: tokens_eq)

lemma keywords_map_eq: "keywords_map =
  [''for'' \<mapsto> For, ''if'' \<mapsto> If_tok, ''else'' \<mapsto> Else, ''let'' \<mapsto> Let_tok, ''obj'' \<mapsto> Obj,
   ''func'' \<mapsto> Func_tok, ''break'' \<mapsto> Break, ''continue'' \<mapsto> Continue, ''return'' \<mapsto> Return]"
  by (simp add: keywords_map_def tokens_eq Type_defs)

lemma token_from_nth:
  "distinct (filter (\<lambda>v. v \<noteq> []) vals) \<Longrightarrow> i < length vals \<Longrightarrow> vals ! i \<noteq> [] \<Longrightarrow>
   token_from t vals (vals ! i) = int (t + i)"
proof (induction vals arbitrary: t i)
  case Nil
  then show ?case by simp
next
  case (Cons v vs)
  show ?case
  proof (cases i)
    case 0
    then show ?thesis by simp
  next
    case (Suc k)
    with Cons.prems have k: "k < length vs" "vs ! k \<noteq> []" by simp_all
    then have mem: "vs ! k \<in> set (filter (\<lambda>v. v \<noteq> []) vs)" by simp
    have "v \<noteq> vs ! k"
    proof (cases "v = []")
      case True
      with k show ?thesis by simp
    next
      case False
      with Cons.prems(1) have "v \<notin> set (filter (\<lambda>v. v \<noteq> []) vs)" by simp
      with mem show ?thesis by auto
    qed
    moreover from Cons.prems(1) have "distinct (filter (\<lambda>v. v \<noteq> []) vs)"
      by (simp split: if_splits)
    ultimately show ?thesis using Cons.IH [of k "Suc t"] k Suc by simp
  qed
qed

lemma length_tokens: "length tokens = 64"
  by (simp add: tokens_eq)

lemma keyword_spellings_eq:
  "keyword_spellings =
     [''for'', ''if'', ''else'', ''let'', ''obj'', ''func'', ''break'', ''continue'', ''return'']"
  by (simp add: keyword_spellings_def Type_String_def Type_defs tokens_eq)

lemma Type_IsKeyword_cases:
  "Type_IsKeyword k \<longleftrightarrow>
     k \<in> {For, If_tok, Else, Let_tok, Obj, Func_tok, Break, Continue, Return}"
  unfolding Type_IsKeyword_def Type_defs by auto

lemma Lookup_keyword: "Type_IsKeyword k \<Longrightarrow> Lookup (Type_String k) = k"
  unfolding Type_IsKeyword_cases
  by (elim insertE emptyE)
     (simp_all add: Type_String_def tokens_eq Lookup_def keywords_map_eq Type_defs)

lemma Lookup_other: "s \<notin> set keyword_spellings \<Longrightarrow> Lookup s = Identifier"
  by (simp add: keyword_spellings_eq Lookup_def keywords_map_eq)

lemma token_Type_String:
  assumes "0 \<le> t" and "t < int (length tokens)" and "tokens ! nat t \<noteq> ''''"
  shows "token (Type_String t) = t"
proof -
  from assms have s: "Type_String t = tokens ! nat t"
    by (simp add: Type_String_def)
  from assms have "nat t < length tokens" by simp
  with assms(3) have "token_from 0 tokens (tokens ! nat t) = int (0 + nat t)"
    by (intro token_from_nth tokens_distinct)
  with assms(1) s show ?thesis by (simp add: token_def)
qed

text \<open>
  Claim C9.  The spelling table is a two-way mapping: for every kind \<open>t\<close> that has a
  non-empty spelling in the table, \<open>token\<close> applied to the string of \<open>t\<close> gives \<open>t\<close>
  back; \<open>Lookup\<close> gives the kind of every keyword for its spelling, and
  \<open>Identifier\<close> for every string that is not the spelling of a keyword.
\<close>

theorem kind_spelling_bidirectional:
  "(0 \<le> t \<and> t < int (length tokens) \<and> tokens ! nat t \<noteq> '''' \<longrightarrow> token (Type_String t) = t)
   \<and> (Type_IsKeyword k \<longrightarrow> Lookup (Type_String k) = k)
   \<and> (s \<notin> set keyword_spellings \<longrightarrow> Lookup s = Identifier)
   \<and> keyword_spellings =
       [''for'', ''if'', ''else'', ''let'', ''obj'', ''func'', ''break'', ''continue'', ''return'']"
  using token_Type_String [of t] Lookup_keyword [of k] Lookup_other [of s] keyword_spellings_eq
  by blast

theorem kind_spelling_bidirectional_witness:
  "0 \<le> Semicolon \<and> Semicolon < int (length tokens) \<and> tokens ! nat Semicolon \<noteq> ''''
   \<and> token (Type_String Semicolon) = Semicolon
   \<and> Type_IsKeyword If_tok \<and> Lookup (Type_String If_tok) = If_tok
   \<and> ''main'' \<notin> set keyword_spellings \<and> Lookup ''main'' = Identifier"
proof -
  have a: "0 \<le> Semicolon \<and> Semicolon < int (length tokens) \<and> tokens ! nat Semicolon \<noteq> ''''"
    by (simp add: tokens_eq Semicolon_def)
  have b: "Type_IsKeyword If_tok"
    by (simp add: Type_IsKeyword_def Type_defs)
  have c: "''main'' \<notin> set keyword_spellings"
    by (simp add: keyword_spellings_eq)
  from a b c kind_spelling_bidirectional [of Semicolon If_tok "''main''"]
  show ?thesis by blast
qed

subsection \<open>Parser: one step of each loop\<close>

lemma pTok_stream: "pTok p = pTok (newParser (stream p))"
  by (simp add: pTok_def peekToken_def newParser_def)

lemma pTok_Cons: "stream p = t # ts \<Longrightarrow> pTok p = Type t"
  by (simp add: pTok_def peekToken_def)

lemma next_Cons: "stream p = t # ts \<Longrightarrow> next p = p\<lparr>tok := t, stream := ts\<rparr>"
  by (simp add: next_def peekToken_def)

lemma parseCmdLit_loop_stop:
  "pTok p \<noteq> String \<Longrightarrow> parseCmdLit_loop args p = (args, p)"
  by (simp add: parseCmdLit_loop.simps [of args p] match_def)

lemma parseCmdLit_loop_step:
  "pTok p = String \<Longrightarrow> parseCmdLit_loop args p = parseCmdLit_loop (args @ [peekToken p]) (next p)"
  by (simp add: parseCmdLit_loop.simps [of args p] match_def current_def next_def)

lemma parseCmdLit_loop_strings:
  assumes "list_all (\<lambda>t. Type t = String) as" and "pTok (newParser rest) \<noteq> String"
    and "stream p = as @ rest"
  shows "parseCmdLit_loop args p =
           (args @ as, p\<lparr>tok := last (tok p # as), stream := rest\<rparr>)"
  using assms
proof (induction as arbitrary: args p)
  case Nil
  then have "pTok p \<noteq> String" using pTok_stream [of p] by simp
  with Nil show ?case by (simp add: parseCmdLit_loop_stop)
next
  case (Cons a as)
  from Cons.prems have k: "pTok p = String" by (simp add: pTok_Cons)
  from Cons.prems have n: "next p = p\<lparr>tok := a, stream := as @ rest\<rparr>"
    by (simp add: next_Cons)
  from Cons.prems have pk: "peekToken p = a" by (simp add: peekToken_def)
  from Cons.prems have "list_all (\<lambda>t. Type t = String) as" by simp
  from Cons.IH [OF this Cons.prems(2), of "next p" "args @ [a]"] n
  have "parseCmdLit_loop (args @ [a]) (next p) =
          ((args @ [a]) @ as, (next p)\<lparr>tok := last (tok (next p) # as), stream := rest\<rparr>)"
    by simp
  with k n pk show ?case by (simp add: parseCmdLit_loop_step)
qed

lemma parseCmdLit_strings:
  assumes "list_all (\<lambda>t. Type t = String) (a # as)" and "pTok (newParser rest) \<noteq> String"
    and "stream p = a # as @ rest"
  shows "parseCmdLit p = (LiteralCommand a as, p\<lparr>tok := last (a # as), stream := rest\<rparr>)"
proof -
  from assms have k: "pTok p = String" by (simp add: pTok_Cons)
  from assms have n: "next p = p\<lparr>tok := a, stream := as @ rest\<rparr>" by (simp add: next_Cons)
  from assms have as: "list_all (\<lambda>t. Type t = String) as" by simp
  have "parseCmdLit_loop [] (next p) =
          ([] @ as, (next p)\<lparr>tok := last (tok (next p) # as), stream := rest\<rparr>)"
    by (rule parseCmdLit_loop_strings [OF as assms(2)]) (simp add: n)
  with k n show ?thesis
    by (simp add: parseCmdLit_def match_def current_def)
qed

text \<open>Where no \<open>String\<close> token stands, the error is reported and a node is built all the same.\<close>

lemma parseCmdLit_no_string:
  "pTok p \<noteq> String \<Longrightarrow>
   parseCmdLit p = (LiteralCommand (tok p) [],
                    error (''unexpected toke '' @ Type_String (pTok p)) p)"
  by (simp add: parseCmdLit_def match_def current_def error_def parseCmdLit_loop_stop pTok_def peekToken_def)

lemma parseCmdPipe_loop_stop: "pTok p \<noteq> Or \<Longrightarrow> parseCmdPipe_loop expr p = (expr, p)"
  by (simp add: parseCmdPipe_loop.simps [of expr p] match_def)

lemma parseCmdPipe_loop_step:
  "pTok p = Or \<Longrightarrow> parseCmdLit (next p) = (right, p2) \<Longrightarrow>
   parseCmdPipe_loop expr p = parseCmdPipe_loop (BinaryCommand expr (peekToken p) right) p2"
  by (simp add: parseCmdPipe_loop.simps [of expr p] match_def current_def next_def)

lemma parseCmdAnd_loop_stop: "pTok p \<noteq> LogicalAnd \<Longrightarrow> parseCmdAnd_loop expr p = (expr, p)"
  by (simp add: parseCmdAnd_loop.simps [of expr p] match_def)

lemma parseCmdAnd_loop_step:
  "pTok p = LogicalAnd \<Longrightarrow> parseCmdNot (next p) = (right, p2) \<Longrightarrow>
   parseCmdAnd_loop expr p = parseCmdAnd_loop (LogicalCommand expr (peekToken p) right) p2"
  by (simp add: parseCmdAnd_loop.simps [of expr p] match_def current_def next_def)

lemma parseCmdLor_loop_stop: "pTok p \<noteq> LogicalOr \<Longrightarrow> parseCmdLor_loop expr p = (expr, p)"
  by (simp add: parseCmdLor_loop.simps [of expr p] match_def)

lemma parseCmdLor_loop_step:
  "pTok p = LogicalOr \<Longrightarrow> parseCmdAnd (next p) = (right, p2) \<Longrightarrow>
   parseCmdLor_loop expr p = parseCmdLor_loop (LogicalCommand expr (peekToken p) right) p2"
  by (simp add: parseCmdLor_loop.simps [of expr p] match_def current_def next_def)

subsection \<open>Parser: a literal command as operand\<close>

lemma pTok_upd: "pTok (p\<lparr>tok := t, stream := ts\<rparr>) = pTok (newParser ts)"
  by (simp add: pTok_def peekToken_def newParser_def)

lemma parseCmdPipe_lit:
  assumes "list_all (\<lambda>t. Type t = String) (a # as)"
    and "pTok (newParser rest) \<noteq> String" and "pTok (newParser rest) \<noteq> Or"
    and "stream p = a # as @ rest"
  shows "parseCmdPipe p = (LiteralCommand a as, p\<lparr>tok := last (a # as), stream := rest\<rparr>)"
  using parseCmdLit_strings [OF assms(1,2,4)] assms(3)
  by (simp add: parseCmdPipe_def parseCmdPipe_loop_stop pTok_upd)

lemma parseCmdNot_String:
  "stream p = a # ts \<Longrightarrow> Type a = String \<Longrightarrow> parseCmdNot p = parseCmdPipe p"
  by (simp add: parseCmdNot_def match_def pTok_Cons String_def Not_tok_def)

lemma parseCmdNot_lit:
  assumes "list_all (\<lambda>t. Type t = String) (a # as)"
    and "pTok (newParser rest) \<noteq> String" and "pTok (newParser rest) \<noteq> Or"
    and "stream p = a # as @ rest"
  shows "parseCmdNot p = (LiteralCommand a as, p\<lparr>tok := last (a # as), stream := rest\<rparr>)"
  using parseCmdPipe_lit [OF assms] parseCmdNot_String [OF assms(4)] assms(1) by simp

lemma parseCmdAnd_lit:
  assumes "list_all (\<lambda>t. Type t = String) (a # as)"
    and "pTok (newParser rest) \<noteq> String" and "pTok (newParser rest) \<noteq> Or"
    and "pTok (newParser rest) \<noteq> LogicalAnd"
    and "stream p = a # as @ rest"
  shows "parseCmdAnd p = (LiteralCommand a as, p\<lparr>tok := last (a # as), stream := rest\<rparr>)"
  using parseCmdNot_lit [OF assms(1,2,3,5)] assms(4)
  by (simp add: parseCmdAnd_def parseCmdAnd_loop_stop pTok_upd)

lemma parseCmdPipe_loop_lit:
  assumes "Type opr = Or" and "list_all (\<lambda>t. Type t = String) (b # bs)"
    and "pTok (newParser rest) \<noteq> String"
    and "stream p = opr # b # bs @ rest"
  shows "parseCmdPipe_loop expr p =
           parseCmdPipe_loop (BinaryCommand expr opr (LiteralCommand b bs))
             (p\<lparr>tok := last (b # bs), stream := rest\<rparr>)"
proof -
  from assms have n: "next p = p\<lparr>tok := opr, stream := b # bs @ rest\<rparr>" by (simp add: next_Cons)
  have "parseCmdLit (next p) =
          (LiteralCommand b bs, (next p)\<lparr>tok := last (b # bs), stream := rest\<rparr>)"
    by (rule parseCmdLit_strings [OF assms(2,3)]) (simp add: n)
  moreover from assms have "pTok p = Or" by (simp add: pTok_Cons)
  moreover from assms have "peekToken p = opr" by (simp add: peekToken_def)
  ultimately show ?thesis using n
    by (simp add: parseCmdPipe_loop_step [where right = "LiteralCommand b bs"])
qed

lemma parseCmdAnd_loop_lit:
  assumes "Type opr = LogicalAnd" and "list_all (\<lambda>t. Type t = String) (b # bs)"
    and "pTok (newParser rest) \<noteq> String" and "pTok (newParser rest) \<noteq> Or"
    and "stream p = opr # b # bs @ rest"
  shows "parseCmdAnd_loop expr p =
           parseCmdAnd_loop (LogicalCommand expr opr (LiteralCommand b bs))
             (p\<lparr>tok := last (b # bs), stream := rest\<rparr>)"
proof -
  from assms have n: "next p = p\<lparr>tok := opr, stream := b # bs @ rest\<rparr>" by (simp add: next_Cons)
  have "parseCmdNot (next p) =
          (LiteralCommand b bs, (next p)\<lparr>tok := last (b # bs), stream := rest\<rparr>)"
    by (rule parseCmdNot_lit [OF assms(2,3,4)]) (simp add: n)
  moreover from assms have "pTok p = LogicalAnd" by (simp add: pTok_Cons)
  moreover from assms have "peekToken p = opr" by (simp add: peekToken_def)
  ultimately show ?thesis using n
    by (simp add: parseCmdAnd_loop_step [where right = "LiteralCommand b bs"])
qed

lemma parseCmdLor_loop_lit:
  assumes "Type opr = LogicalOr" and "list_all (\<lambda>t. Type t = String) (b # bs)"
    and "pTok (newParser rest) \<noteq> String" and "pTok (newParser rest) \<noteq> Or"
    and "pTok (newParser rest) \<noteq> LogicalAnd"
    and "stream p = opr # b # bs @ rest"
  shows "parseCmdLor_loop expr p =
           parseCmdLor_loop (LogicalCommand expr opr (LiteralCommand b bs))
             (p\<lparr>tok := last (b # bs), stream := rest\<rparr>)"
proof -
  from assms have n: "next p = p\<lparr>tok := opr, stream := b # bs @ rest\<rparr>" by (simp add: next_Cons)
  have "parseCmdAnd (next p) =
          (LiteralCommand b bs, (next p)\<lparr>tok := last (b # bs), stream := rest\<rparr>)"
    by (rule parseCmdAnd_lit [OF assms(2,3,4,5)]) (simp add: n)
  moreover from assms have "pTok p = LogicalOr" by (simp add: pTok_Cons)
  moreover from assms have "peekToken p = opr" by (simp add: peekToken_def)
  ultimately show ?thesis using n
    by (simp add: parseCmdLor_loop_step [where right = "LiteralCommand b bs"])
qed

lemma pTok_newParser_Cons: "pTok (newParser (t # ts)) = Type t"
  by (simp add: pTok_def peekToken_def newParser_def)

subsection \<open>Parser: precedence and associativity\<close>

lemma follow_simps:
  "pTok (newParser rest) \<notin> {String, Or, LogicalAnd, LogicalOr} \<Longrightarrow>
     pTok (newParser rest) \<noteq> String \<and> pTok (newParser rest) \<noteq> Or \<and>
     pTok (newParser rest) \<noteq> LogicalAnd \<and> pTok (newParser rest) \<noteq> LogicalOr"
  by simp

lemma kinds_distinct:
  "String \<noteq> Or" "String \<noteq> LogicalAnd" "String \<noteq> LogicalOr" "String \<noteq> Not_tok"
  "Or \<noteq> String" "Or \<noteq> LogicalAnd" "Or \<noteq> LogicalOr"
  "LogicalAnd \<noteq> String" "LogicalAnd \<noteq> Or" "LogicalAnd \<noteq> LogicalOr"
  "LogicalOr \<noteq> String" "LogicalOr \<noteq> Or" "LogicalOr \<noteq> LogicalAnd"
  by (simp_all add: String_def Or_def LogicalAnd_def LogicalOr_def Not_tok_def)

lemma pipe_pipe:
  assumes strs: "list_all (\<lambda>t. Type t = String) (a # as @ b # bs @ c # cs)"
    and follow: "pTok (newParser rest) \<notin> {String, Or, LogicalAnd, LogicalOr}"
    and st: "stream p = a # as @ o1 # b # bs @ o2 # c # cs @ rest"
    and ops: "Type o1 = Or" "Type o2 = Or"
  shows "parseCommand p =
           (BinaryCommand (BinaryCommand (LiteralCommand a as) o1 (LiteralCommand b bs)) o2
              (LiteralCommand c cs),
            p\<lparr>tok := last (c # cs), stream := rest\<rparr>)"
proof -
  let ?A = "LiteralCommand a as" and ?B = "LiteralCommand b bs" and ?C = "LiteralCommand c cs"
  let ?p1 = "p\<lparr>tok := last (a # as), stream := o1 # b # bs @ o2 # c # cs @ rest\<rparr>"
  let ?p2 = "p\<lparr>tok := last (b # bs), stream := o2 # c # cs @ rest\<rparr>"
  let ?p3 = "p\<lparr>tok := last (c # cs), stream := rest\<rparr>"
  note f = follow_simps [OF follow]
  from strs have sa: "list_all (\<lambda>t. Type t = String) (a # as)"
    and sb: "list_all (\<lambda>t. Type t = String) (b # bs)"
    and sc: "list_all (\<lambda>t. Type t = String) (c # cs)" by simp_all
  have 1: "parseCmdLit p = (?A, ?p1)"
    by (rule parseCmdLit_strings [OF sa _ st]) (simp add: pTok_newParser_Cons ops kinds_distinct)
  have 2: "parseCmdPipe_loop ?A ?p1 = parseCmdPipe_loop (BinaryCommand ?A o1 ?B) ?p2"
    using parseCmdPipe_loop_lit [OF ops(1) sb, of "o2 # c # cs @ rest" ?p1 ?A]
    by (simp add: pTok_newParser_Cons ops kinds_distinct)
  have 3: "parseCmdPipe_loop (BinaryCommand ?A o1 ?B) ?p2 =
             parseCmdPipe_loop (BinaryCommand (BinaryCommand ?A o1 ?B) o2 ?C) ?p3"
    using parseCmdPipe_loop_lit [OF ops(2) sc, of rest ?p2 "BinaryCommand ?A o1 ?B"] f
    by simp
  have pipe: "parseCmdPipe p = (BinaryCommand (BinaryCommand ?A o1 ?B) o2 ?C, ?p3)"
    using 1 2 3 f by (simp add: parseCmdPipe_def parseCmdPipe_loop_stop pTok_upd)
  from sa have "Type a = String" by simp
  with pipe st have "parseCmdNot p = (BinaryCommand (BinaryCommand ?A o1 ?B) o2 ?C, ?p3)"
    by (simp add: parseCmdNot_String)
  with f show ?thesis
    by (simp add: parseCommand_def parseCmdLor_def parseCmdAnd_def
          parseCmdAnd_loop_stop parseCmdLor_loop_stop pTok_upd)
qed

lemma and_and:
  assumes strs: "list_all (\<lambda>t. Type t = String) (a # as @ b # bs @ c # cs)"
    and follow: "pTok (newParser rest) \<notin> {String, Or, LogicalAnd, LogicalOr}"
    and st: "stream p = a # as @ o1 # b # bs @ o2 # c # cs @ rest"
    and ops: "Type o1 = LogicalAnd" "Type o2 = LogicalAnd"
  shows "parseCommand p =
           (LogicalCommand (LogicalCommand (LiteralCommand a as) o1 (LiteralCommand b bs)) o2
              (LiteralCommand c cs),
            p\<lparr>tok := last (c # cs), stream := rest\<rparr>)"
proof -
  let ?A = "LiteralCommand a as" and ?B = "LiteralCommand b bs" and ?C = "LiteralCommand c cs"
  let ?p1 = "p\<lparr>tok := last (a # as), stream := o1 # b # bs @ o2 # c # cs @ rest\<rparr>"
  let ?p2 = "p\<lparr>tok := last (b # bs), stream := o2 # c # cs @ rest\<rparr>"
  let ?p3 = "p\<lparr>tok := last (c # cs), stream := rest\<rparr>"
  note f = follow_simps [OF follow]
  from strs have sa: "list_all (\<lambda>t. Type t = String) (a # as)"
    and sb: "list_all (\<lambda>t. Type t = String) (b # bs)"
    and sc: "list_all (\<lambda>t. Type t = String) (c # cs)" by simp_all
  have 1: "parseCmdNot p = (?A, ?p1)"
    by (rule parseCmdNot_lit [OF sa _ _ st]) (simp_all add: pTok_newParser_Cons ops kinds_distinct)
  have 2: "parseCmdAnd_loop ?A ?p1 = parseCmdAnd_loop (LogicalCommand ?A o1 ?B) ?p2"
    using parseCmdAnd_loop_lit [OF ops(1) sb, of "o2 # c # cs @ rest" ?p1 ?A]
    by (simp add: pTok_newParser_Cons ops kinds_distinct)
  have 3: "parseCmdAnd_loop (LogicalCommand ?A o1 ?B) ?p2 =
             parseCmdAnd_loop (LogicalCommand (LogicalCommand ?A o1 ?B) o2 ?C) ?p3"
    using parseCmdAnd_loop_lit [OF ops(2) sc, of rest ?p2 "LogicalCommand ?A o1 ?B"] f
    by simp
  have "parseCmdAnd p = (LogicalCommand (LogicalCommand ?A o1 ?B) o2 ?C, ?p3)"
    using 1 2 3 f by (simp add: parseCmdAnd_def parseCmdAnd_loop_stop pTok_upd)
  with f show ?thesis
    by (simp add: parseCommand_def parseCmdLor_def parseCmdLor_loop_stop pTok_upd)
qed

lemma lor_lor:
  assumes strs: "list_all (\<lambda>t. Type t = String) (a # as @ b # bs @ c # cs)"
    and follow: "pTok (newParser rest) \<notin> {String, Or, LogicalAnd, LogicalOr}"
    and st: "stream p = a # as @ o1 # b # bs @ o2 # c # cs @ rest"
    and ops: "Type o1 = LogicalOr" "Type o2 = LogicalOr"
  shows "parseCommand p =
           (LogicalCommand (LogicalCommand (LiteralCommand a as) o1 (LiteralCommand b bs)) o2
              (LiteralCommand c cs),
            p\<lparr>tok := last (c # cs), stream := rest\<rparr>)"
proof -
  let ?A = "LiteralCommand a as" and ?B = "LiteralCommand b bs" and ?C = "LiteralCommand c cs"
  let ?p1 = "p\<lparr>tok := last (a # as), stream := o1 # b # bs @ o2 # c # cs @ rest\<rparr>"
  let ?p2 = "p\<lparr>tok := last (b # bs), stream := o2 # c # cs @ rest\<rparr>"
  let ?p3 = "p\<lparr>tok := last (c # cs), stream := rest\<rparr>"
  note f = follow_simps [OF follow]
  from strs have sa: "list_all (\<lambda>t. Type t = String) (a # as)"
    and sb: "list_all (\<lambda>t. Type t = String) (b # bs)"
    and sc: "list_all (\<lambda>t. Type t = String) (c # cs)" by simp_all
  have 1: "parseCmdAnd p = (?A, ?p1)"
    by (rule parseCmdAnd_lit [OF sa _ _ _ st])
       (simp_all add: pTok_newParser_Cons ops kinds_distinct)
  have 2: "parseCmdLor_loop ?A ?p1 = parseCmdLor_loop (LogicalCommand ?A o1 ?B) ?p2"
    using parseCmdLor_loop_lit [OF ops(1) sb, of "o2 # c # cs @ rest" ?p1 ?A]
    by (simp add: pTok_newParser_Cons ops kinds_distinct)
  have 3: "parseCmdLor_loop (LogicalCommand ?A o1 ?B) ?p2 =
             parseCmdLor_loop (LogicalCommand (LogicalCommand ?A o1 ?B) o2 ?C) ?p3"
    using parseCmdLor_loop_lit [OF ops(2) sc, of rest ?p2 "LogicalCommand ?A o1 ?B"] f
    by simp
  show ?thesis
    using 1 2 3 f by (simp add: parseCommand_def parseCmdLor_def parseCmdLor_loop_stop pTok_upd)
qed

text \<open>
  The same folds for operands of any shape: whatever commands the operand parser
  returns, two repetitions of a loop nest them to the left, and a \<open>||\<close> takes as its
  right side all that \<open>parseCmdAnd\<close> returns.
\<close>

lemma parseCmdPipe_fold_left:
  assumes "parseCmdLit p = (A, p1)" and "pTok p1 = Or"
    and "parseCmdLit (next p1) = (B, p2)" and "pTok p2 = Or"
    and "parseCmdLit (next p2) = (C, p3)" and "pTok p3 \<noteq> Or"
  shows "parseCmdPipe p =
           (BinaryCommand (BinaryCommand A (peekToken p1) B) (peekToken p2) C, p3)"
  using assms
  by (simp add: parseCmdPipe_def parseCmdPipe_loop_step [OF assms(2,3)]
        parseCmdPipe_loop_step [OF assms(4,5)] parseCmdPipe_loop_stop)

lemma parseCmdAnd_fold_left:
  assumes "parseCmdNot p = (A, p1)" and "pTok p1 = LogicalAnd"
    and "parseCmdNot (next p1) = (B, p2)" and "pTok p2 = LogicalAnd"
    and "parseCmdNot (next p2) = (C, p3)" and "pTok p3 \<noteq> LogicalAnd"
  shows "parseCmdAnd p =
           (LogicalCommand (LogicalCommand A (peekToken p1) B) (peekToken p2) C, p3)"
  using assms
  by (simp add: parseCmdAnd_def parseCmdAnd_loop_step [OF assms(2,3)]
        parseCmdAnd_loop_step [OF assms(4,5)] parseCmdAnd_loop_stop)

lemma parseCmdLor_fold_left:
  assumes "parseCmdAnd p = (A, p1)" and "pTok p1 = LogicalOr"
    and "parseCmdAnd (next p1) = (B, p2)" and "pTok p2 = LogicalOr"
    and "parseCmdAnd (next p2) = (C, p3)" and "pTok p3 \<noteq> LogicalOr"
  shows "parseCmdLor p =
           (LogicalCommand (LogicalCommand A (peekToken p1) B) (peekToken p2) C, p3)"
  using assms
  by (simp add: parseCmdLor_def parseCmdLor_loop_step [OF assms(2,3)]
        parseCmdLor_loop_step [OF assms(4,5)] parseCmdLor_loop_stop)

lemma parseCmdLor_right_is_And:
  assumes "parseCmdAnd p = (A, p1)" and "pTok p1 = LogicalOr"
    and "parseCmdAnd (next p1) = (B, p2)" and "pTok p2 \<noteq> LogicalOr"
  shows "parseCmdLor p = (LogicalCommand A (peekToken p1) B, p2)"
  using assms
  by (simp add: parseCmdLor_def parseCmdLor_loop_step [OF assms(2,3)] parseCmdLor_loop_stop)

lemma parseCmdNot_wraps_Pipe:
  assumes "pTok p = Not_tok" and "parseCmdPipe (next p) = (A, p1)"
  shows "parseCmdNot p = (UnaryCommand (peekToken p) A, p1)"
  using assms by (simp add: parseCmdNot_def match_def current_def next_def)

lemma Type_tk: "Type (tk k s) = k"
  by (simp add: tk_def)

text \<open>
  Claim C5.  The operators \<open>|\<close>, \<open>&&\<close> and \<open>||\<close> associate to the left.  For all
  literal commands \<open>a as\<close>, \<open>b bs\<close>, \<open>c cs\<close> (a \<open>String\<close> token for the name, \<open>String\<close>
  tokens for the arguments), followed by a token that continues no command, the
  stream \<open>a | b | c\<close> parses as \<open>BinaryCommand (BinaryCommand a b) c\<close>, and
  \<open>a && b && c\<close> and \<open>a || b || c\<close> parse as the \<open>LogicalCommand\<close> nested the same
  way; each node holds the operator token that stood between its operands.
\<close>

theorem composition_left_assoc:
  assumes "list_all (\<lambda>t. Type t = String) (a # as @ b # bs @ c # cs)"
    and "pTok (newParser rest) \<notin> {String, Or, LogicalAnd, LogicalOr}"
    and "stream p = a # as @ o1 # b # bs @ o2 # c # cs @ rest"
  shows "(Type o1 = Or \<and> Type o2 = Or \<longrightarrow>
            parseCommand p =
              (BinaryCommand (BinaryCommand (LiteralCommand a as) o1 (LiteralCommand b bs)) o2
                 (LiteralCommand c cs),
               p\<lparr>tok := last (c # cs), stream := rest\<rparr>))
       \<and> (Type o1 = LogicalAnd \<and> Type o2 = LogicalAnd \<longrightarrow>
            parseCommand p =
              (LogicalCommand (LogicalCommand (LiteralCommand a as) o1 (LiteralCommand b bs)) o2
                 (LiteralCommand c cs),
               p\<lparr>tok := last (c # cs), stream := rest\<rparr>))
       \<and> (Type o1 = LogicalOr \<and> Type o2 = LogicalOr \<longrightarrow>
            parseCommand p =
              (LogicalCommand (LogicalCommand (LiteralCommand a as) o1 (LiteralCommand b bs)) o2
                 (LiteralCommand c cs),
               p\<lparr>tok := last (c # cs), stream := rest\<rparr>))"
  using pipe_pipe [OF assms] and_and [OF assms] lor_lor [OF assms] by blast

theorem composition_left_assoc_witness:
  "parseCommand (newParser [tk String ''a'', tk Or ''|'', tk String ''b'', tk Or ''|'',
                            tk String ''c'', tk Semicolon '';'', tk Eof ''''])
     = (BinaryCommand
          (BinaryCommand (LiteralCommand (tk String ''a'') []) (tk Or ''|'')
             (LiteralCommand (tk String ''b'') []))
          (tk Or ''|'') (LiteralCommand (tk String ''c'') []),
        \<lparr>tok = tk String ''c'', stream = [tk Semicolon '';'', tk Eof ''''], errors = []\<rparr>)
   \<and> parseCommand (newParser [tk String ''a'', tk LogicalAnd ''&&'', tk String ''b'', tk String ''x'',
                            tk LogicalAnd ''&&'', tk String ''c'', tk Semicolon '';'', tk Eof ''''])
     = (LogicalCommand
          (LogicalCommand (LiteralCommand (tk String ''a'') []) (tk LogicalAnd ''&&'')
             (LiteralCommand (tk String ''b'') [tk String ''x'']))
          (tk LogicalAnd ''&&'') (LiteralCommand (tk String ''c'') []),
        \<lparr>tok = tk String ''c'', stream = [tk Semicolon '';'', tk Eof ''''], errors = []\<rparr>)
   \<and> parseCommand (newParser [tk String ''a'', tk LogicalOr ''||'', tk String ''b'',
                            tk LogicalOr ''||'', tk String ''c'', tk Semicolon '';'', tk Eof ''''])
     = (LogicalCommand
          (LogicalCommand (LiteralCommand (tk String ''a'') []) (tk LogicalOr ''||'')
             (LiteralCommand (tk String ''b'') []))
          (tk LogicalOr ''||'') (LiteralCommand (tk String ''c'') []),
        \<lparr>tok = tk String ''c'', stream = [tk Semicolon '';'', tk Eof ''''], errors = []\<rparr>)"
proof -
  let ?rest = "[tk Semicolon '';'', tk Eof '''']"
  have f: "pTok (newParser ?rest) \<notin> {String, Or, LogicalAnd, LogicalOr}"
    by (simp add: pTok_newParser_Cons Type_tk Type_defs)
  have 1: "list_all (\<lambda>t. Type t = String) (tk String ''a'' # [] @ tk String ''b'' # [] @ tk String ''c'' # [])"
    by (simp add: Type_tk)
  have 2: "list_all (\<lambda>t. Type t = String)
             (tk String ''a'' # [] @ tk String ''b'' # [tk String ''x''] @ tk String ''c'' # [])"
    by (simp add: Type_tk)
  show ?thesis
    using
      composition_left_assoc [OF 1 f, of "newParser [tk String ''a'', tk Or ''|'', tk String ''b'',
         tk Or ''|'', tk String ''c'', tk Semicolon '';'', tk Eof '''']" "tk Or ''|''" "tk Or ''|''"]
      composition_left_assoc [OF 2 f, of "newParser [tk String ''a'', tk LogicalAnd ''&&'',
         tk String ''b'', tk String ''x'', tk LogicalAnd ''&&'', tk String ''c'',
         tk Semicolon '';'', tk Eof '''']" "tk LogicalAnd ''&&''" "tk LogicalAnd ''&&''"]
      composition_left_assoc [OF 1 f, of "newParser [tk String ''a'', tk LogicalOr ''||'',
         tk String ''b'', tk LogicalOr ''||'', tk String ''c'', tk Semicolon '';'', tk Eof '''']"
         "tk LogicalOr ''||''" "tk LogicalOr ''||''"]
    by (simp add: newParser_def Type_tk)
qed

text \<open>
  Claim C6.  \<open>&&\<close> binds tighter than \<open>||\<close>: for all literal commands \<open>a\<close>, \<open>b\<close>, \<open>c\<close>
  the stream \<open>a || b && c\<close> parses as
  \<open>LogicalCommand a || (LogicalCommand b && c)\<close>.
\<close>

theorem and_binds_tighter:
  assumes strs: "list_all (\<lambda>t. Type t = String) (a # as @ b # bs @ c # cs)"
    and follow: "pTok (newParser rest) \<notin> {String, Or, LogicalAnd, LogicalOr}"
    and st: "stream p = a # as @ o1 # b # bs @ o2 # c # cs @ rest"
    and ops: "Type o1 = LogicalOr" "Type o2 = LogicalAnd"
  shows "parseCommand p =
           (LogicalCommand (LiteralCommand a as) o1
              (LogicalCommand (LiteralCommand b bs) o2 (LiteralCommand c cs)),
            p\<lparr>tok := last (c # cs), stream := rest\<rparr>)"
proof -
  let ?A = "LiteralCommand a as" and ?B = "LiteralCommand b bs" and ?C = "LiteralCommand c cs"
  let ?p1 = "p\<lparr>tok := last (a # as), stream := o1 # b # bs @ o2 # c # cs @ rest\<rparr>"
  let ?q = "p\<lparr>tok := o1, stream := b # bs @ o2 # c # cs @ rest\<rparr>"
  let ?p2 = "p\<lparr>tok := last (b # bs), stream := o2 # c # cs @ rest\<rparr>"
  let ?p3 = "p\<lparr>tok := last (c # cs), stream := rest\<rparr>"
  note f = follow_simps [OF follow]
  from strs have sa: "list_all (\<lambda>t. Type t = String) (a # as)"
    and sb: "list_all (\<lambda>t. Type t = String) (b # bs)"
    and sc: "list_all (\<lambda>t. Type t = String) (c # cs)" by simp_all
  have 1: "parseCmdAnd p = (?A, ?p1)"
    by (rule parseCmdAnd_lit [OF sa _ _ _ st])
       (simp_all add: pTok_newParser_Cons ops kinds_distinct)
  have 2: "parseCmdNot ?q = (?B, ?p2)"
    using parseCmdNot_lit [OF sb, of "o2 # c # cs @ rest" ?q]
    by (simp add: pTok_newParser_Cons ops kinds_distinct)
  have 3: "parseCmdAnd_loop ?B ?p2 = parseCmdAnd_loop (LogicalCommand ?B o2 ?C) ?p3"
    using parseCmdAnd_loop_lit [OF ops(2) sc, of rest ?p2 ?B] f by simp
  have 4: "parseCmdAnd ?q = (LogicalCommand ?B o2 ?C, ?p3)"
    using 2 3 f by (simp add: parseCmdAnd_def parseCmdAnd_loop_stop pTok_upd)
  have n: "next ?p1 = ?q" by (simp add: next_Cons)
  have 5: "parseCmdLor_loop ?A ?p1 =
             parseCmdLor_loop (LogicalCommand ?A o1 (LogicalCommand ?B o2 ?C)) ?p3"
    using parseCmdLor_loop_step [of ?p1 "LogicalCommand ?B o2 ?C" ?p3 ?A] 4 n
    by (simp add: pTok_upd pTok_newParser_Cons ops peekToken_def)
  show ?thesis
    using 1 5 f by (simp add: parseCommand_def parseCmdLor_def parseCmdLor_loop_stop pTok_upd)
qed

theorem and_binds_tighter_witness:
  "parseCommand (newParser [tk String ''a'', tk LogicalOr ''||'', tk String ''b'',
                            tk LogicalAnd ''&&'', tk String ''c'', tk Semicolon '';'', tk Eof ''''])
     = (LogicalCommand (LiteralCommand (tk String ''a'') []) (tk LogicalOr ''||'')
          (LogicalCommand (LiteralCommand (tk String ''b'') []) (tk LogicalAnd ''&&'')
             (LiteralCommand (tk String ''c'') [])),
        \<lparr>tok = tk String ''c'', stream = [tk Semicolon '';'', tk Eof ''''], errors = []\<rparr>)"
proof -
  let ?rest = "[tk Semicolon '';'', tk Eof '''']"
  have f: "pTok (newParser ?rest) \<notin> {String, Or, LogicalAnd, LogicalOr}"
    by (simp add: pTok_newParser_Cons Type_tk Type_defs)
  have 1: "list_all (\<lambda>t. Type t = String) (tk String ''a'' # [] @ tk String ''b'' # [] @ tk String ''c'' # [])"
    by (simp add: Type_tk)
  show ?thesis
    using and_binds_tighter [OF 1 f, of "newParser [tk String ''a'', tk LogicalOr ''||'',
         tk String ''b'', tk LogicalAnd ''&&'', tk String ''c'', tk Semicolon '';'', tk Eof '''']"
         "tk LogicalOr ''||''" "tk LogicalAnd ''&&''"]
    by (simp add: newParser_def Type_tk)
qed

text \<open>
  Claim C7.  A negation wraps the whole pipe: for all literal commands \<open>a\<close>, \<open>b\<close> the
  stream \<open>! a | b\<close> parses as \<open>UnaryCommand ! (BinaryCommand a | b)\<close>, and not as the
  \<open>BinaryCommand\<close> whose left side is the negation of \<open>a\<close>.
\<close>

theorem negation_wraps_pipe:
  assumes strs: "list_all (\<lambda>t. Type t = String) (a # as @ b # bs)"
    and follow: "pTok (newParser rest) \<notin> {String, Or, LogicalAnd, LogicalOr}"
    and st: "stream p = n # a # as @ o1 # b # bs @ rest"
    and ops: "Type n = Not_tok" "Type o1 = Or"
  shows "parseCommand p =
           (UnaryCommand n (BinaryCommand (LiteralCommand a as) o1 (LiteralCommand b bs)),
            p\<lparr>tok := last (b # bs), stream := rest\<rparr>)
       \<and> fst (parseCommand p) \<noteq>
           BinaryCommand (UnaryCommand n (LiteralCommand a as)) o1 (LiteralCommand b bs)"
proof -
  let ?A = "LiteralCommand a as" and ?B = "LiteralCommand b bs"
  let ?q = "p\<lparr>tok := n, stream := a # as @ o1 # b # bs @ rest\<rparr>"
  let ?p1 = "p\<lparr>tok := last (a # as), stream := o1 # b # bs @ rest\<rparr>"
  let ?p2 = "p\<lparr>tok := last (b # bs), stream := rest\<rparr>"
  note f = follow_simps [OF follow]
  from strs have sa: "list_all (\<lambda>t. Type t = String) (a # as)"
    and sb: "list_all (\<lambda>t. Type t = String) (b # bs)" by simp_all
  have 1: "parseCmdLit ?q = (?A, ?p1)"
    using parseCmdLit_strings [OF sa, of "o1 # b # bs @ rest" ?q]
    by (simp add: pTok_newParser_Cons ops kinds_distinct)
  have 2: "parseCmdPipe_loop ?A ?p1 = parseCmdPipe_loop (BinaryCommand ?A o1 ?B) ?p2"
    using parseCmdPipe_loop_lit [OF ops(2) sb, of rest ?p1 ?A] f by simp
  have 3: "parseCmdPipe ?q = (BinaryCommand ?A o1 ?B, ?p2)"
    using 1 2 f by (simp add: parseCmdPipe_def parseCmdPipe_loop_stop pTok_upd)
  from st ops have "pTok p = Not_tok" by (simp add: pTok_Cons)
  moreover from st have "next p = ?q" by (simp add: next_Cons)
  ultimately have "parseCmdNot p = (UnaryCommand n (BinaryCommand ?A o1 ?B), ?p2)"
    using 3 by (simp add: parseCmdNot_def match_def current_def)
  with f have "parseCommand p = (UnaryCommand n (BinaryCommand ?A o1 ?B), ?p2)"
    by (simp add: parseCommand_def parseCmdLor_def parseCmdAnd_def
          parseCmdAnd_loop_stop parseCmdLor_loop_stop pTok_upd)
  then show ?thesis by simp
qed

theorem negation_wraps_pipe_witness:
  "parseCommand (newParser [tk Not_tok ''!'', tk String ''a'', tk Or ''|'', tk String ''b'',
                            tk Semicolon '';'', tk Eof ''''])
     = (UnaryCommand (tk Not_tok ''!'')
          (BinaryCommand (LiteralCommand (tk String ''a'') []) (tk Or ''|'')
             (LiteralCommand (tk String ''b'') [])),
        \<lparr>tok = tk String ''b'', stream = [tk Semicolon '';'', tk Eof ''''], errors = []\<rparr>)"
proof -
  let ?rest = "[tk Semicolon '';'', tk Eof '''']"
  have f: "pTok (newParser ?rest) \<notin> {String, Or, LogicalAnd, LogicalOr}"
    by (simp add: pTok_newParser_Cons Type_tk Type_defs)
  have 1: "list_all (\<lambda>t. Type t = String) (tk String ''a'' # [] @ tk String ''b'' # [])"
    by (simp add: Type_tk)
  show ?thesis
    using negation_wraps_pipe [OF 1 f, of "newParser [tk Not_tok ''!'', tk String ''a'',
         tk Or ''|'', tk String ''b'', tk Semicolon '';'', tk Eof '''']"
         "tk Not_tok ''!''" "tk Or ''|''"]
    by (simp add: newParser_def Type_tk)
qed

subsection \<open>Parser: evaluation on concrete streams\<close>

lemma parseCmdLit_loop_if:
  "parseCmdLit_loop args p =
     (if pTok p = String then parseCmdLit_loop (args @ [peekToken p]) (next p) else (args, p))"
  by (simp add: parseCmdLit_loop_step parseCmdLit_loop_stop)

lemma parseCmdPipe_loop_if:
  "parseCmdPipe_loop expr p =
     (if pTok p = Or
      then parseCmdPipe_loop (BinaryCommand expr (peekToken p) (fst (parseCmdLit (next p))))
             (snd (parseCmdLit (next p)))
      else (expr, p))"
  by (simp add: parseCmdPipe_loop_stop parseCmdPipe_loop_step [OF _ prod.collapse [symmetric]])

lemma parseCmdAnd_loop_if:
  "parseCmdAnd_loop expr p =
     (if pTok p = LogicalAnd
      then parseCmdAnd_loop (LogicalCommand expr (peekToken p) (fst (parseCmdNot (next p))))
             (snd (parseCmdNot (next p)))
      else (expr, p))"
  by (simp add: parseCmdAnd_loop_stop parseCmdAnd_loop_step [OF _ prod.collapse [symmetric]])

lemma parseCmdLor_loop_if:
  "parseCmdLor_loop expr p =
     (if pTok p = LogicalOr
      then parseCmdLor_loop (LogicalCommand expr (peekToken p) (fst (parseCmdAnd (next p))))
             (snd (parseCmdAnd (next p)))
      else (expr, p))"
  by (simp add: parseCmdLor_loop_stop parseCmdLor_loop_step [OF _ prod.collapse [symmetric]])

lemma Type_String_eval:
  "Type_String 51 = '';''" "Type_String 38 = ''!''" "Type_String 1 = ''EOF''"
  "Type_String 58 = ''let''" "Type_String 56 = ''if''" "Type_String 55 = ''for''"
  by (simp_all add: Type_String_def tokens_eq)

lemmas parser_eval =
  parseCmdLit_loop_if parseCmdPipe_loop_if parseCmdAnd_loop_if parseCmdLor_loop_if
  parseCmdLit_def parseCmdPipe_def parseCmdNot_def parseCmdAnd_def parseCmdLor_def
  parseCommand_def parseCmdStmt_def parseStatement_end_def parseProgram_def
  match_def next_def peekToken_def pTok_def current_def error_def atEnd_def newParser_def
  Type_tk Type_String_eval Type_defs

subsection \<open>Parser: fuel\<close>

text \<open>More fuel never changes an answer, so \<open>None\<close> for every fuel is a run that never returns.\<close>

lemma parseStatement_fuel_Suc:
  "(\<forall>p r. parseStatement n p = Some r \<longrightarrow> parseStatement (Suc n) p = Some r) \<and>
   (\<forall>p r. parseBlockStmt n p = Some r \<longrightarrow> parseBlockStmt (Suc n) p = Some r) \<and>
   (\<forall>stmts p r. parseBlockStmt_loop n stmts p = Some r \<longrightarrow>
       parseBlockStmt_loop (Suc n) stmts p = Some r)"
proof (induction n)
  case 0
  show ?case by simp
next
  case (Suc n)
  then have st: "\<And>p r. parseStatement n p = Some r \<Longrightarrow> parseStatement (Suc n) p = Some r"
    and bl: "\<And>p r. parseBlockStmt n p = Some r \<Longrightarrow> parseBlockStmt (Suc n) p = Some r"
    and lp: "\<And>stmts p r. parseBlockStmt_loop n stmts p = Some r \<Longrightarrow>
               parseBlockStmt_loop (Suc n) stmts p = Some r"
    by blast+
  have 1: "parseStatement (Suc (Suc n)) p = Some r" if "parseStatement (Suc n) p = Some r" for p r
  proof (cases "pTok p = LeftBrace")
    case True
    with that obtain b p1 where b: "parseBlockStmt n p = Some (b, p1)"
      by (auto split: option.splits)
    from bl [OF b] b that True show ?thesis by simp
  next
    case False
    with that show ?thesis by simp
  qed
  have 2: "parseBlockStmt (Suc (Suc n)) p = Some r" if "parseBlockStmt (Suc n) p = Some r" for p r
  proof -
    from that obtain ss p1 where l: "parseBlockStmt_loop n [] (next p) = Some (ss, p1)"
      by (auto split: option.splits)
    from lp [OF l] l that show ?thesis by simp
  qed
  have 3: "parseBlockStmt_loop (Suc (Suc n)) stmts p = Some r"
    if "parseBlockStmt_loop (Suc n) stmts p = Some r" for stmts p r
  proof (cases "Type (tok p) \<noteq> RightBrace")
    case True
    with that obtain s p1 where s: "parseStatement n p = Some (s, p1)"
      by (auto split: option.splits)
    with that True have l: "parseBlockStmt_loop n (stmts @ [s]) (next p1) = Some r" by simp
    from st [OF s] lp [OF l] True show ?thesis by simp
  next
    case False
    with that show ?thesis by simp
  qed
  from 1 2 3 show ?case by blast
qed

lemma parseProgram_loop_fuel_Suc:
  "parseProgram_loop n stmts p = Some r \<Longrightarrow> parseProgram_loop (Suc n) stmts p = Some r"
proof (induction n arbitrary: stmts p)
  case 0
  then show ?case by simp
next
  case (Suc n)
  show ?case
  proof (cases "atEnd p")
    case True
    with Suc.prems show ?thesis by simp
  next
    case False
    with Suc.prems obtain s p1 where s: "parseStatement n p = Some (s, p1)"
      by (auto split: option.splits)
    with Suc.prems False have "parseProgram_loop n (stmts @ [s]) p1 = Some r" by simp
    from Suc.IH [OF this] s parseStatement_fuel_Suc [of n] False show ?thesis by simp
  qed
qed

lemma parseProgram_fuel_mono:
  "parseProgram n p = Some r \<Longrightarrow> parseProgram (n + k) p = Some r"
proof (induction k)
  case 0
  then show ?case by simp
next
  case (Suc k)
  then have "parseProgram_loop (n + k) [] p = Some r" by (simp add: parseProgram_def)
  then have "parseProgram_loop (Suc (n + k)) [] p = Some r" by (rule parseProgram_loop_fuel_Suc)
  then show ?case by (simp add: parseProgram_def)
qed

subsection \<open>Parser: statements\<close>

text \<open>
  A token that begins no statement is reported and skipped: the \<^verbatim>\<open>default\<close> branch
  consumes exactly one token.
\<close>

lemma parseStatement_default:
  assumes "pTok p \<notin> {LeftBrace, Let_tok, If_tok, For, String, Not_tok}"
  shows "parseStatement (Suc n) p =
           Some (None, next (error (''illegal token '' @ Type_String (pTok p) @ '' at line start'') p))"
    and "stream (next (error msg p)) = tl (stream p)"
  using assms by (simp_all add: next_def error_def)

text \<open>
  The branches of \<open>let\<close>, \<open>if\<close> and \<open>for\<close> are empty: the terminator check that
  follows finds the keyword itself, reports it, and the statement returns with the
  stream where it was.
\<close>

lemma parseStatement_stub:
  assumes "pTok p \<in> {Let_tok, If_tok, For}"
  shows "parseStatement (Suc n) p =
           Some (None, error (''unexpected token '' @ Type_String (pTok p) @ '', expected ''
                              @ Type_String Semicolon) p)"
  using assms
  by (auto simp: parseStatement_end_def match_def Type_defs)

lemma pTok_error: "pTok (error msg p) = pTok p"
  by (simp add: pTok_def peekToken_def error_def)

lemma parseProgram_loop_stub:
  "pTok p \<in> {Let_tok, If_tok, For} \<Longrightarrow> parseProgram_loop n stmts p = None"
proof (induction n arbitrary: stmts p)
  case 0
  show ?case by simp
next
  case (Suc n)
  from Suc.prems have ne: "\<not> atEnd p" by (auto simp: atEnd_def Type_defs)
  show ?case
  proof (cases n)
    case 0
    with ne show ?thesis by simp
  next
    case (Suc m)
    let ?p1 = "error (''unexpected token '' @ Type_String (pTok p) @ '', expected ''
                      @ Type_String Semicolon) p"
    from Suc.prems have "pTok ?p1 \<in> {Let_tok, If_tok, For}" by (simp only: pTok_error)
    then have "parseProgram_loop n (stmts @ [None]) ?p1 = None" by (rule Suc.IH)
    with ne Suc parseStatement_stub [OF Suc.prems, of m] show ?thesis by simp
  qed
qed

text \<open>
  Claim C1, at the inputs where the code departs from it: on the two-token streams
  \<open>let EOF\<close>, \<open>if EOF\<close> and \<open>for EOF\<close> the program loop returns for no amount of fuel.
\<close>

theorem parseProgram_keyword_no_return:
  "parseProgram n (newParser [tk Let_tok ''let'', tk Eof '''']) = None \<and>
   parseProgram n (newParser [tk If_tok ''if'', tk Eof '''']) = None \<and>
   parseProgram n (newParser [tk For ''for'', tk Eof '''']) = None"
  by (simp add: parseProgram_def parseProgram_loop_stub pTok_newParser_Cons Type_tk)

text \<open>
  Claim C3, at an input where the code departs from it: in \<open>! ;\<close> no \<open>String\<close> token
  stands where the command literal is due.  The error is reported, and a
  \<open>LiteralCommand\<close> is built all the same, its name the token consumed last (the \<open>!\<close>).
  The same happens to the right of a pipe, in \<open>a | ;\<close>.
\<close>

theorem parseCmdLit_builds_without_name:
  "parseStatement (Suc 0) (newParser [tk Not_tok ''!'', tk Semicolon '';'', tk Eof ''''])
     = Some (Some (CmdStatement
                (UnaryCommand (tk Not_tok ''!'') (LiteralCommand (tk Not_tok ''!'') []))),
             \<lparr>tok = tk Semicolon '';'', stream = [tk Eof ''''],
                errors = [''unexpected toke ;'']\<rparr>)
   \<and> parseStatement (Suc 0)
       (newParser [tk String ''a'', tk Or ''|'', tk Semicolon '';'', tk Eof ''''])
     = Some (Some (CmdStatement
                (BinaryCommand (LiteralCommand (tk String ''a'') []) (tk Or ''|'')
                   (LiteralCommand (tk Or ''|'') []))),
             \<lparr>tok = tk Semicolon '';'', stream = [tk Eof ''''],
                errors = [''unexpected toke ;'']\<rparr>)"
  by (simp add: parser_eval)

subsection \<open>Lexer: the base state\<close>

lemma consume_Tokens: "Tokens (consume l) = Tokens l"
  by (simp add: consume_def advance_def lexer_error_def Let_def split_def)

lemma consumeSpace_Tokens: "Tokens (consumeSpace l) = Tokens l"
proof (induction l rule: consumeSpace.induct)
  case (1 l)
  then show ?case
    by (cases "unicode_IsSpace (peek l)")
       (simp_all add: consumeSpace.simps [of l] consume_Tokens ignore_def)
qed

lemma isAlphabet_not_space: "isAlphabet r \<Longrightarrow> \<not> unicode_IsSpace r"
  by (auto simp: isAlphabet_def unicode_IsSpace_def)

text \<open>
  Unless the source begins with a letter strictly between \<open>A\<close> and \<open>Z\<close> or \<open>a\<close> and \<open>z\<close>,
  \<open>lexBase\<close> hands over to \<open>lexCmd\<close>, which returns \<^verbatim>\<open>nil\<close>: the run ends with no
  token sent.
\<close>

lemma run_loop_not_alphabet:
  assumes "\<not> isAlphabet (peek l)"
  shows "run_loop U LexBase l = (if unicode_IsSpace (peek l) then consumeSpace l else l)"
proof -
  let ?l1 = "if unicode_IsSpace (peek l) then consumeSpace l else l"
  from assms have "state U LexBase l = (?l1, Some LexCmd)"
    by (simp add: state_def lexBase_def Let_def)
  moreover have "state U LexCmd ?l1 = (?l1, None)"
    by (simp add: state_def lexCmd_def)
  ultimately show ?thesis
    by (simp add: run_loop.simps [of U LexBase l] run_loop.simps [of U LexCmd ?l1])
qed

lemma peek_Lex: "peek (Lex s e) = (case s of [] \<Rightarrow> eof | c # _ \<Rightarrow> of_char c)"
  by (cases s) (simp_all add: peek_def lexer_atEnd_def Lex_def Let_def)

lemma runes_Nil: "runes [] = []"
  by (simp add: runes.simps)

lemma runes_Cons: "runes (c # s) \<noteq> [] \<and> hd (runes (c # s)) = fst (DecodeRuneInString (c # s))"
  by (simp add: runes.simps [of "c # s"] split_def Let_def)

lemma DecodeRuneInString_ascii:
  "(of_char c :: int) < 0x80 \<Longrightarrow> fst (DecodeRuneInString (c # s)) = of_char c"
proof -
  assume a: "(of_char c :: int) < 0x80"
  have "int (of_char c) = (of_char c :: int)" by (rule of_nat_of_char)
  with a have "(of_char c :: nat) < 0x80" by linarith
  then show ?thesis by (simp add: DecodeRuneInString_def Let_def of_nat_of_char)
qed

lemma whitespace_not_alphabet:
  assumes "list_all unicode_IsSpace (runes s)"
  shows "\<not> isAlphabet (peek (Lex s e))"
proof (cases s)
  case Nil
  then show ?thesis by (simp add: peek_Lex not_eof_simps)
next
  case (Cons c cs)
  show ?thesis
  proof (cases "(of_char c :: int) < 0x80")
    case True
    from assms Cons runes_Cons [of c cs] have "unicode_IsSpace (hd (runes (c # cs)))"
      by (cases "runes (c # cs)") auto
    with True runes_Cons [of c cs] have "unicode_IsSpace (of_char c)"
      by (simp add: DecodeRuneInString_ascii)
    with Cons isAlphabet_not_space show ?thesis by (auto simp: peek_Lex)
  next
    case False
    with Cons show ?thesis by (simp add: peek_Lex isAlphabet_def)
  qed
qed

text \<open>
  Claim C2, where the code departs from it: for every source whose runes are all
  whitespace (the empty source too) the run closes the token channel without having
  sent any token, so no end-of-input token either.
\<close>

theorem whitespace_emits_nothing:
  assumes "list_all unicode_IsSpace (runes s)"
  shows "Tokens (run U (Lex s e)) = [] \<and> closed (run U (Lex s e))"
proof -
  from assms have "\<not> isAlphabet (peek (Lex s e))" by (rule whitespace_not_alphabet)
  then have "run_loop U LexBase (Lex s e) =
               (if unicode_IsSpace (peek (Lex s e)) then consumeSpace (Lex s e) else Lex s e)"
    by (rule run_loop_not_alphabet)
  then show ?thesis
    by (simp add: run_def consumeSpace_Tokens) (simp add: Lex_def Let_def)
qed

lemma runes_example:
  "runes [CHR '' '', CHR 0x09, CHR 0x0A, CHR 0xC2, CHR 0xA0, CHR 0xE3, CHR 0x80, CHR 0x80]
     = [0x20, 0x09, 0x0A, 0xA0, 0x3000]"
  by (simp add: runes.simps DecodeRuneInString_def Let_def)

theorem whitespace_emits_nothing_witness:
  "Tokens (run noTables
     (Lex [CHR '' '', CHR 0x09, CHR 0x0A, CHR 0xC2, CHR 0xA0, CHR 0xE3, CHR 0x80, CHR 0x80] True))
     = []
   \<and> closed (run noTables
     (Lex [CHR '' '', CHR 0x09, CHR 0x0A, CHR 0xC2, CHR 0xA0, CHR 0xE3, CHR 0x80, CHR 0x80] True))"
proof -
  have "list_all unicode_IsSpace
          (runes [CHR '' '', CHR 0x09, CHR 0x0A, CHR 0xC2, CHR 0xA0, CHR 0xE3, CHR 0x80, CHR 0x80])"
    by (simp add: runes_example unicode_IsSpace_def)
  from whitespace_emits_nothing [OF this] show ?thesis .
qed

subsection \<open>Lexer: faults found by \<open>consume\<close>\<close>

text \<open>
  A NUL byte and an invalid encoding are always reported: the counter goes up by one,
  the handler (if there is one) is called with the position of the offending byte,
  and the read offset moves on by one byte.
\<close>

lemma consume_reports_NUL:
  assumes "rdOffset l < length (src l)" and "src l ! rdOffset l = CHR 0x00"
  shows "ErrCount (consume l) = ErrCount l + 1
       \<and> errCalls (consume l) = (if err l then errCalls l @ [(pos l, ErrNUL)] else errCalls l)
       \<and> rdOffset (consume l) = rdOffset l + 1 \<and> ch (consume l) = 0"
  using assms
  by (simp add: consume_def lexer_atEnd_def advance_def lexer_error_def Let_def)

lemma consume_reports_Enc:
  assumes "rdOffset l < length (src l)" and "0x80 \<le> (of_char (src l ! rdOffset l) :: int)"
    and "DecodeRuneInString (drop (rdOffset l) (src l)) = (RuneError, 1)"
  shows "ErrCount (consume l) = ErrCount l + 1
       \<and> errCalls (consume l) = (if err l then errCalls l @ [(pos l, ErrEnc)] else errCalls l)
       \<and> rdOffset (consume l) = rdOffset l + 1 \<and> ch (consume l) = RuneError"
  using assms
  by (simp add: consume_def lexer_atEnd_def advance_def lexer_error_def Let_def
        RuneSelf_def RuneError_def)

lemma DecodeRuneInString_bom:
  "DecodeRuneInString (CHR 0xEF # CHR 0xBB # CHR 0xBF # s) = (bom, 3)"
  by (simp add: DecodeRuneInString_def bom_def Let_def)

text \<open>
  A byte-order mark is tested against \<open>offset\<close>, the offset at which the current token
  starts, not against the read offset: it is reported when the token being read
  starts after the first byte, and would pass unreported in a token that starts at
  offset 0.  No run of the lexer reads a mark in such a token (last subsection).
\<close>

lemma consume_BOM:
  assumes "rdOffset l < length (src l)"
    and "drop (rdOffset l) (src l) = CHR 0xEF # CHR 0xBB # CHR 0xBF # s"
  shows "ch (consume l) = bom \<and> rdOffset (consume l) = rdOffset l + 3
       \<and> ErrCount (consume l) = (if 0 < offset l then ErrCount l + 1 else ErrCount l)
       \<and> errCalls (consume l) =
           (if 0 < offset l \<and> err l then errCalls l @ [(pos l, ErrBOM)] else errCalls l)"
proof -
  from assms have "src l ! rdOffset l = CHR 0xEF"
    by (metis nth_via_drop)
  with assms show ?thesis
    by (simp add: consume_def lexer_atEnd_def advance_def lexer_error_def Let_def
          RuneSelf_def RuneError_def DecodeRuneInString_bom bom_def)
qed

subsection \<open>Lexer: operators in statement mode\<close>

lemma consume_ascii:
  assumes "rdOffset l < length (src l)" and "src l ! rdOffset l = c"
    and "0 < (of_char c :: int)" and "(of_char c :: int) < 0x80"
  shows "consume l = advance (of_char c) 1 l"
  using assms by (simp add: consume_def lexer_atEnd_def RuneSelf_def Let_def)

lemma literal_one:
  assumes "rdOffset l < length (src l)" and "offset l = rdOffset l"
  shows "literal (advance r 1 l) = [src l ! rdOffset l]"
proof -
  from assms(1) have "drop (rdOffset l) (src l) = src l ! rdOffset l # drop (Suc (rdOffset l)) (src l)"
    by (simp add: Cons_nth_drop_Suc)
  with assms(2) show ?thesis by (simp add: literal_def advance_def Let_def)
qed

lemma IsOperator_brackets:
  "IsOperator ''[''" "IsOperator ''(''" "IsOperator '']''"
  by (simp_all add: IsOperator_def token_def tokens_eq Type_IsOperator_def Type_defs)

lemma string_of_rune_ascii:
  assumes "(of_char c :: int) < 0x80"
  shows "string_of_rune (of_char c) = [c]"
proof -
  have e: "int (of_char c) = (of_char c :: int)" by (rule of_nat_of_char)
  with assms have n: "(of_char c :: nat) < 0x80" by linarith
  have 1: "\<not> ((of_char c :: int) < 0 \<or> 0x10FFFF < (of_char c :: int)
             \<or> (0xD800 \<le> (of_char c :: int) \<and> (of_char c :: int) \<le> 0xDFFF))"
    using assms of_char_int_nonneg [of c] by linarith
  have 2: "nat (of_char c) = (of_char c :: nat)" by simp
  show ?thesis
    unfolding string_of_rune_def Let_def 2
    using 1 n by (simp only: if_False if_True char_of_char)
qed

lemma bracket_dispatch:
  assumes "c \<in> {CHR ''['', CHR ''('', CHR '']''}"
  shows "\<not> unicode_IsSpace (of_char c)" and "\<not> isIdentStart U (of_char c)"
    and "\<not> unicode_IsDigit U (of_char c)" and "(of_char c :: int) \<noteq> 0x22"
    and "IsOperator (string_of_rune (of_char c))"
    and "0 < (of_char c :: int)" and "(of_char c :: int) < 0x80"
proof -
  from assms consider "c = CHR ''[''" | "c = CHR ''(''" | "c = CHR '']''" by blast
  note cs = this
  show "\<not> unicode_IsSpace (of_char c)"
    by (rule cs) (simp_all add: unicode_IsSpace_def)
  show "\<not> isIdentStart U (of_char c)"
    by (rule cs) (simp_all add: isIdentStart_def unicode_IsLetter_def)
  show "\<not> unicode_IsDigit U (of_char c)"
    by (rule cs) (simp_all add: unicode_IsDigit_def)
  show "(of_char c :: int) \<noteq> 0x22"
    by (rule cs) simp_all
  show lt: "(of_char c :: int) < 0x80"
    by (rule cs) simp_all
  show "0 < (of_char c :: int)"
    by (rule cs) simp_all
  have "IsOperator [c]"
    by (rule cs) (simp_all add: IsOperator_brackets)
  then show "IsOperator (string_of_rune (of_char c))"
    by (simp only: string_of_rune_ascii [OF lt])
qed

lemma lexStmt_bracket:
  assumes "rdOffset l < length (src l)" and "src l ! rdOffset l = c"
    and "c \<in> {CHR ''['', CHR ''('', CHR '']''}"
  shows "state U LexStmt l = (consume l, Some LexStmtOp)"
proof -
  note d = bracket_dispatch [OF assms(3)]
  have ch: "ch (consume l) = of_char c"
    by (simp add: consume_ascii [OF assms(1,2) d(6,7)] advance_def Let_def)
  have "lexStmt U l = (consume l, Some LexStmtOp)"
    unfolding lexStmt_def Let_def ch
    using d(1-5) by (simp only: if_False if_True)
  then show ?thesis by (simp add: state_def)
qed
lemma emit_Tokens:
  "Tokens (emit t l) = Tokens l @ [\<lparr>Type = t, Literal = literal l, Position = start l\<rparr>]"
  by (simp add: emit_def ignore_def)

lemma lexStmtOp_bracket:
  assumes "rdOffset l < length (src l)" and "src l ! rdOffset l = c" and "offset l = rdOffset l"
    and "c \<in> {CHR ''['', CHR ''('', CHR '']''}"
  shows "state U LexStmtOp (consume l) =
           (emit (if c = CHR '']'' then RightBrack else LeftParen) (consume l), Some LexStmt)
       \<and> Tokens (emit (if c = CHR '']'' then RightBrack else LeftParen) (consume l)) =
           Tokens l @ [\<lparr>Type = (if c = CHR '']'' then RightBrack else LeftParen),
                        Literal = [c], Position = start l\<rparr>]"
proof -
  note d = bracket_dispatch [OF assms(4)]
  note adv = consume_ascii [OF assms(1,2) d(6,7)]
  have ch: "ch (consume l) = of_char c" by (simp add: adv advance_def Let_def)
  have lit: "literal (consume l) = [c]"
    using literal_one [OF assms(1,3), of "of_char c"] assms(2) by (simp add: adv)
  have st: "start (consume l) = start l" "Tokens (consume l) = Tokens l"
    by (simp_all add: adv advance_def Let_def)
  from assms(4) consider "c = CHR ''[''" | "c = CHR ''(''" | "c = CHR '']''" by blast
  then have "lexStmtOp (consume l) =
               (emit (if c = CHR '']'' then RightBrack else LeftParen) (consume l), Some LexStmt)"
    by cases (simp_all add: lexStmtOp_def ch)
  then show ?thesis
    by (simp add: state_def emit_Tokens lit st)
qed
text \<open>
  Claim C10.  In statement mode, with the next byte of the source a \<open>[\<close>, the machine
  goes from \<open>lexStmt\<close> to \<open>lexStmtOp\<close> and sends a token of kind \<open>LeftParen\<close>, the kind
  it sends for \<open>(\<close>; only the literal tells the two apart.  For \<open>]\<close> it sends
  \<open>RightBrack\<close>, a kind of its own.  (\<open>offset l = rdOffset l\<close>: a new token starts at the
  byte, as it does whenever \<open>lexStmt\<close> is entered.)
\<close>

theorem left_bracket_emits_LeftParen:
  assumes "rdOffset l < length (src l)" and "offset l = rdOffset l"
    and "src l ! rdOffset l = c"
  shows "(c = CHR ''['' \<or> c = CHR ''('' \<longrightarrow>
            state U LexStmt l = (consume l, Some LexStmtOp)
          \<and> state U LexStmtOp (consume l) = (emit LeftParen (consume l), Some LexStmt)
          \<and> Tokens (emit LeftParen (consume l)) =
              Tokens l @ [\<lparr>Type = LeftParen, Literal = [c], Position = start l\<rparr>])
       \<and> (c = CHR '']'' \<longrightarrow>
            state U LexStmt l = (consume l, Some LexStmtOp)
          \<and> state U LexStmtOp (consume l) = (emit RightBrack (consume l), Some LexStmt)
          \<and> Tokens (emit RightBrack (consume l)) =
              Tokens l @ [\<lparr>Type = RightBrack, Literal = [c], Position = start l\<rparr>])
       \<and> LeftParen \<noteq> LeftBrack \<and> RightBrack \<noteq> LeftParen \<and> RightBrack \<noteq> RightParen"
proof -
  have 1: "state U LexStmt l = (consume l, Some LexStmtOp)
         \<and> state U LexStmtOp (consume l) = (emit LeftParen (consume l), Some LexStmt)
         \<and> Tokens (emit LeftParen (consume l)) =
             Tokens l @ [\<lparr>Type = LeftParen, Literal = [c], Position = start l\<rparr>]"
    if "c = CHR ''['' \<or> c = CHR ''(''"
  proof -
    from that have m: "c \<in> {CHR ''['', CHR ''('', CHR '']''}" and n: "c \<noteq> CHR '']''" by auto
    from lexStmt_bracket [OF assms(1,3) m] lexStmtOp_bracket [OF assms(1,3,2) m, of U] n
    show ?thesis by simp
  qed
  have 2: "state U LexStmt l = (consume l, Some LexStmtOp)
         \<and> state U LexStmtOp (consume l) = (emit RightBrack (consume l), Some LexStmt)
         \<and> Tokens (emit RightBrack (consume l)) =
             Tokens l @ [\<lparr>Type = RightBrack, Literal = [c], Position = start l\<rparr>]"
    if "c = CHR '']''"
  proof -
    from that have m: "c \<in> {CHR ''['', CHR ''('', CHR '']''}" by auto
    from lexStmt_bracket [OF assms(1,3) m] lexStmtOp_bracket [OF assms(1,3,2) m, of U] that
    show ?thesis by simp
  qed
  have 3: "LeftParen \<noteq> LeftBrack \<and> RightBrack \<noteq> LeftParen \<and> RightBrack \<noteq> RightParen"
    by (simp add: LeftParen_def LeftBrack_def RightBrack_def RightParen_def)
  from 1 2 3 show ?thesis by blast
qed

lemma IsKeyword_if: "IsKeyword ''if''" "Lookup ''if'' = If_tok"
  by (simp_all add: IsKeyword_def Lookup_def keywords_map_eq)

lemmas lexer_eval =
  peek_def lexer_atEnd_def Lex_def consume_def advance_def Let_def RuneSelf_def
  literal_def emit_def ignore_def backup_def isAlphabet_def unicode_IsSpace_def

lemma lexBase_if_bracket:
  "lexBase (Lex ''if[]'' True) = (afterIf ''[]'', Some LexStmt)"
  "lexBase (Lex ''if]'' True) = (afterIf '']'', Some LexStmt)"
  by (simp_all add: lexBase_def lexer_eval consumeWord.simps IsKeyword_if afterIf_def)

theorem left_bracket_emits_LeftParen_witness:
  "state noTables LexStmt (afterIf ''[]'') = (consume (afterIf ''[]''), Some LexStmtOp)
   \<and> Tokens (emit LeftParen (consume (afterIf ''[]'')))
     = [\<lparr>Type = If_tok, Literal = ''if'', Position = \<lparr>Line = 1, Col = 1\<rparr>\<rparr>,
        \<lparr>Type = LeftParen, Literal = ''['', Position = \<lparr>Line = 1, Col = 3\<rparr>\<rparr>]
   \<and> state noTables LexStmt (afterIf '']'') = (consume (afterIf '']''), Some LexStmtOp)
   \<and> Tokens (emit RightBrack (consume (afterIf '']'')))
     = [\<lparr>Type = If_tok, Literal = ''if'', Position = \<lparr>Line = 1, Col = 1\<rparr>\<rparr>,
        \<lparr>Type = RightBrack, Literal = '']'', Position = \<lparr>Line = 1, Col = 3\<rparr>\<rparr>]"
proof -
  let ?a = "afterIf ''[]''" and ?b = "afterIf '']''"
  have a: "rdOffset ?a < length (src ?a)" "offset ?a = rdOffset ?a"
    "src ?a ! rdOffset ?a = CHR ''[''"
    "Tokens ?a = [\<lparr>Type = If_tok, Literal = ''if'', Position = \<lparr>Line = 1, Col = 1\<rparr>\<rparr>]"
    "start ?a = \<lparr>Line = 1, Col = 3\<rparr>"
    by (simp_all add: afterIf_def)
  have b: "rdOffset ?b < length (src ?b)" "offset ?b = rdOffset ?b"
    "src ?b ! rdOffset ?b = CHR '']''"
    "Tokens ?b = [\<lparr>Type = If_tok, Literal = ''if'', Position = \<lparr>Line = 1, Col = 1\<rparr>\<rparr>]"
    "start ?b = \<lparr>Line = 1, Col = 3\<rparr>"
    by (simp_all add: afterIf_def)
  from left_bracket_emits_LeftParen [OF a(1,2,3), of noTables]
    left_bracket_emits_LeftParen [OF b(1,2,3), of noTables] a(4,5) b(4,5)
  show ?thesis by simp
qed

subsection \<open>Parser: the terminator check\<close>

lemma parseStatement_end_eq:
  "parseStatement_end stmt q =
     (stmt, if pTok q = Semicolon then next q
            else error (''unexpected token '' @ Type_String (pTok q) @ '', expected ;'') q)"
  by (simp add: parseStatement_end_def match_def Type_String_eval Semicolon_def)

lemma stream_error: "stream (error msg q) = stream q"
  by (simp add: error_def)

text \<open>
  Claim C4, as it fails.  The lexer sends no token for the source \<open>a\<close>, newline, \<open>b;\<close>
  (its first byte is not strictly between \<open>a\<close> and \<open>z\<close>, and \<open>lexCmd\<close> lexes nothing);
  and the parser, given the two words and the semicolon as the tokens
  \<open>String a\<close>, \<open>String b\<close>, \<open>;\<close>, \<open>EOF\<close> (there is no token for a newline), returns one
  statement, the command \<open>a\<close> with the argument \<open>b\<close>, and reports no error.  Nor does
  the parser go on with the next statement everywhere: inside a block, in
  \<open>{ a ! b ; } ;\<close>, the statement after the missing semicolon is \<open>! b\<close>, and the block
  comes back holding \<open>a\<close> and \<open>b\<close>, the \<open>!\<close> gone.
\<close>

theorem missing_terminator_example_fails:
  "Tokens (run noTables (Lex [CHR ''a'', CHR 0x0A, CHR ''b'', CHR '';''] True)) = []
   \<and> parseProgram (Suc (Suc 0))
       (newParser [tk String ''a'', tk String ''b'', tk Semicolon '';'', tk Eof ''''])
     = Some ([Some (CmdStatement (LiteralCommand (tk String ''a'') [tk String ''b'']))],
             \<lparr>tok = tk Semicolon '';'', stream = [tk Eof ''''], errors = []\<rparr>)
   \<and> parseProgram (Suc (Suc (Suc (Suc (Suc (Suc 0))))))
       (newParser [tk LeftBrace ''{'', tk String ''a'', tk Not_tok ''!'', tk String ''b'',
                   tk Semicolon '';'', tk RightBrace ''}'', tk Semicolon '';'', tk Eof ''''])
     = Some ([Some (BlockStatement
                [Some (CmdStatement (LiteralCommand (tk String ''a'') [])),
                 Some (CmdStatement (LiteralCommand (tk String ''b'') []))])],
             \<lparr>tok = tk Semicolon '';'', stream = [tk Eof ''''],
                errors = [''unexpected token !, expected ;'']\<rparr>)"
proof -
  let ?l = "Lex [CHR ''a'', CHR 0x0A, CHR ''b'', CHR '';''] True"
  have p: "peek ?l = of_char (CHR ''a'')" by (simp add: peek_Lex)
  then have "\<not> isAlphabet (peek ?l)" "\<not> unicode_IsSpace (peek ?l)"
    by (simp_all add: isAlphabet_def unicode_IsSpace_def)
  with run_loop_not_alphabet [of ?l noTables]
  have "Tokens (run noTables ?l) = []" by (simp add: run_def) (simp add: Lex_def Let_def)
  moreover have "parseProgram (Suc (Suc 0))
       (newParser [tk String ''a'', tk String ''b'', tk Semicolon '';'', tk Eof ''''])
     = Some ([Some (CmdStatement (LiteralCommand (tk String ''a'') [tk String ''b'']))],
             \<lparr>tok = tk Semicolon '';'', stream = [tk Eof ''''], errors = []\<rparr>)"
    by (simp add: parser_eval)
  moreover have "parseProgram (Suc (Suc (Suc (Suc (Suc (Suc 0))))))
       (newParser [tk LeftBrace ''{'', tk String ''a'', tk Not_tok ''!'', tk String ''b'',
                   tk Semicolon '';'', tk RightBrace ''}'', tk Semicolon '';'', tk Eof ''''])
     = Some ([Some (BlockStatement
                [Some (CmdStatement (LiteralCommand (tk String ''a'') [])),
                 Some (CmdStatement (LiteralCommand (tk String ''b'') []))])],
             \<lparr>tok = tk Semicolon '';'', stream = [tk Eof ''''],
                errors = [''unexpected token !, expected ;'']\<rparr>)"
    by (simp add: parser_eval)
  ultimately show ?thesis by simp
qed

text \<open>
  Claim C4, amended.  Every parse of a command statement, and every parse of a block
  statement whose block returns, is followed at once by the terminator check.  The
  check returns the statement node whether the semicolon is there or not; when it is
  not, it reports an error and consumes nothing, so the token found in the
  semicolon's place is still the next one.  At the top level of a program the loop
  then parses the next statement from there.  So for the token stream \<open>a ! b ;\<close> (no
  semicolon after \<open>a\<close>) exactly one syntax error is reported and two statements are
  returned.
\<close>

theorem missing_terminator_recovery:
  "parseStatement_end stmt q =
     (stmt, if pTok q = Semicolon then next q
            else error (''unexpected token '' @ Type_String (pTok q) @ '', expected ;'') q)
   \<and> stream (error (''unexpected token '' @ Type_String (pTok q) @ '', expected ;'') q)
       = stream q
   \<and> (pTok p = String \<or> pTok p = Not_tok \<longrightarrow>
        parseStatement (Suc n) p =
          Some (parseStatement_end (Some (CmdStatement (fst (parseCommand p))))
                  (snd (parseCommand p)))
      \<and> parseProgram_loop (Suc (Suc n)) stmts p =
          parseProgram_loop (Suc n) (stmts @ [Some (CmdStatement (fst (parseCommand p)))])
            (if pTok (snd (parseCommand p)) = Semicolon then next (snd (parseCommand p))
             else error (''unexpected token '' @ Type_String (pTok (snd (parseCommand p)))
                         @ '', expected ;'') (snd (parseCommand p))))
   \<and> (pTok p = LeftBrace \<and> parseBlockStmt n p = Some (b, p1) \<longrightarrow>
        parseStatement (Suc n) p = Some (parseStatement_end (Some b) p1)
      \<and> parseProgram_loop (Suc (Suc n)) stmts p =
          parseProgram_loop (Suc n) (stmts @ [Some b])
            (if pTok p1 = Semicolon then next p1
             else error (''unexpected token '' @ Type_String (pTok p1) @ '', expected ;'') p1))
   \<and> parseProgram (Suc (Suc (Suc 0)))
       (newParser [tk String ''a'', tk Not_tok ''!'', tk String ''b'', tk Semicolon '';'',
                   tk Eof ''''])
     = Some ([Some (CmdStatement (LiteralCommand (tk String ''a'') [])),
              Some (CmdStatement
                 (UnaryCommand (tk Not_tok ''!'') (LiteralCommand (tk String ''b'') [])))],
             \<lparr>tok = tk Semicolon '';'', stream = [tk Eof ''''],
                errors = [''unexpected token !, expected ;'']\<rparr>)"
proof -
  have 2: "parseStatement (Suc n) p =
          Some (parseStatement_end (Some (CmdStatement (fst (parseCommand p))))
                  (snd (parseCommand p)))" if "pTok p = String \<or> pTok p = Not_tok" for n
    using that by (auto simp: parseCmdStmt_def split_def Let_def Type_defs)
  have c2: "parseProgram_loop (Suc (Suc n)) stmts p =
          parseProgram_loop (Suc n) (stmts @ [Some (CmdStatement (fst (parseCommand p)))])
            (if pTok (snd (parseCommand p)) = Semicolon then next (snd (parseCommand p))
             else error (''unexpected token '' @ Type_String (pTok (snd (parseCommand p)))
                         @ '', expected ;'') (snd (parseCommand p)))"
    if "pTok p = String \<or> pTok p = Not_tok"
  proof -
    from that have "\<not> atEnd p" by (auto simp: atEnd_def Type_defs)
    with 2 [OF that, of n] show ?thesis
      by (simp add: parseStatement_end_eq del: parseStatement.simps)
  qed
  have 3: "parseStatement (Suc n) p = Some (parseStatement_end (Some b) p1)"
    if "pTok p = LeftBrace \<and> parseBlockStmt n p = Some (b, p1)"
    using that by simp
  have c3: "parseProgram_loop (Suc (Suc n)) stmts p =
          parseProgram_loop (Suc n) (stmts @ [Some b])
            (if pTok p1 = Semicolon then next p1
             else error (''unexpected token '' @ Type_String (pTok p1) @ '', expected ;'') p1)"
    if "pTok p = LeftBrace \<and> parseBlockStmt n p = Some (b, p1)"
  proof -
    from that have "\<not> atEnd p" by (auto simp: atEnd_def Type_defs)
    with 3 [OF that] show ?thesis
      by (simp add: parseStatement_end_eq del: parseStatement.simps)
  qed
  have 5: "parseProgram (Suc (Suc (Suc 0)))
       (newParser [tk String ''a'', tk Not_tok ''!'', tk String ''b'', tk Semicolon '';'',
                   tk Eof ''''])
     = Some ([Some (CmdStatement (LiteralCommand (tk String ''a'') [])),
              Some (CmdStatement
                 (UnaryCommand (tk Not_tok ''!'') (LiteralCommand (tk String ''b'') [])))],
             \<lparr>tok = tk Semicolon '';'', stream = [tk Eof ''''],
                errors = [''unexpected token !, expected ;'']\<rparr>)"
    by (simp add: parser_eval)
  from parseStatement_end_eq [of stmt q] stream_error 2 [of n] c2 3 c3 5 show ?thesis by blast
qed
theorem missing_terminator_recovery_witness:
  "parseStatement (Suc 0)
     (newParser [tk String ''a'', tk Not_tok ''!'', tk String ''b'', tk Semicolon '';'', tk Eof ''''])
     = Some (Some (CmdStatement (LiteralCommand (tk String ''a'') [])),
             \<lparr>tok = tk String ''a'',
                stream = [tk Not_tok ''!'', tk String ''b'', tk Semicolon '';'', tk Eof ''''],
                errors = [''unexpected token !, expected ;'']\<rparr>)
   \<and> parseProgram_loop (Suc (Suc (Suc 0))) []
       (newParser [tk String ''a'', tk Not_tok ''!'', tk String ''b'', tk Semicolon '';'', tk Eof ''''])
     = Some ([Some (CmdStatement (LiteralCommand (tk String ''a'') [])),
              Some (CmdStatement
                 (UnaryCommand (tk Not_tok ''!'') (LiteralCommand (tk String ''b'') [])))],
             \<lparr>tok = tk Semicolon '';'', stream = [tk Eof ''''],
                errors = [''unexpected token !, expected ;'']\<rparr>)
   \<and> parseStatement (Suc (Suc (Suc (Suc 0))))
       (newParser [tk LeftBrace ''{'', tk String ''a'', tk Semicolon '';'', tk RightBrace ''}'',
                   tk Not_tok ''!'', tk String ''b'', tk Semicolon '';'', tk Eof ''''])
     = Some (Some (BlockStatement [Some (CmdStatement (LiteralCommand (tk String ''a'') []))]),
             \<lparr>tok = tk RightBrace ''}'',
                stream = [tk Not_tok ''!'', tk String ''b'', tk Semicolon '';'', tk Eof ''''],
                errors = [''unexpected token !, expected ;'']\<rparr>)
   \<and> parseProgram_loop (Suc (Suc (Suc (Suc (Suc 0))))) []
       (newParser [tk LeftBrace ''{'', tk String ''a'', tk Semicolon '';'', tk RightBrace ''}'',
                   tk Not_tok ''!'', tk String ''b'', tk Semicolon '';'', tk Eof ''''])
     = Some ([Some (BlockStatement [Some (CmdStatement (LiteralCommand (tk String ''a'') []))]),
              Some (CmdStatement
                 (UnaryCommand (tk Not_tok ''!'') (LiteralCommand (tk String ''b'') [])))],
             \<lparr>tok = tk Semicolon '';'', stream = [tk Eof ''''],
                errors = [''unexpected token !, expected ;'']\<rparr>)"
proof -
  let ?rest = "[tk Not_tok ''!'', tk String ''b'', tk Semicolon '';'', tk Eof '''']"
  let ?pa = "newParser (tk String ''a'' # ?rest)"
  let ?a = "LiteralCommand (tk String ''a'') []"
  let ?pb = "\<lparr>tok = tk String ''a'', stream = ?rest, errors = []\<rparr>"
  let ?pc = "\<lparr>tok = tk String ''a'', stream = ?rest,
               errors = [''unexpected token !, expected ;'']\<rparr>"
  let ?ba = "newParser (tk LeftBrace ''{'' # tk String ''a'' # tk Semicolon '';''
                       # tk RightBrace ''}'' # ?rest)"
  let ?blk = "BlockStatement [Some (CmdStatement ?a)]"
  let ?bb = "\<lparr>tok = tk RightBrace ''}'', stream = ?rest, errors = []\<rparr>"
  let ?bc = "\<lparr>tok = tk RightBrace ''}'', stream = ?rest,
               errors = [''unexpected token !, expected ;'']\<rparr>"
  let ?two = "UnaryCommand (tk Not_tok ''!'') (LiteralCommand (tk String ''b'') [])"
  let ?end = "\<lparr>tok = tk Semicolon '';'', stream = [tk Eof ''''],
                errors = [''unexpected token !, expected ;'']\<rparr>"
  have hP: "pTok ?pa = String \<or> pTok ?pa = Not_tok"
    by (simp add: parser_eval)
  have cP: "parseCommand ?pa = (?a, ?pb)"
    by (simp add: parser_eval)
  have kP: "pTok ?pb \<noteq> Semicolon" "pTok ?bb \<noteq> Semicolon"
    by (simp_all add: parser_eval)
  have eP: "error (''unexpected token '' @ Type_String (pTok ?pb) @ '', expected ;'') ?pb = ?pc"
    "error (''unexpected token '' @ Type_String (pTok ?bb) @ '', expected ;'') ?bb = ?bc"
    by (simp_all add: parser_eval)
  have hB: "pTok ?ba = LeftBrace \<and> parseBlockStmt (Suc (Suc (Suc 0))) ?ba = Some (?blk, ?bb)"
    by (simp add: parser_eval)
  have r1: "parseProgram_loop (Suc (Suc 0)) ([] @ [Some (CmdStatement ?a)]) ?pc =
              Some ([Some (CmdStatement ?a), Some (CmdStatement ?two)], ?end)"
    by (simp add: parser_eval)
  have r2: "parseProgram_loop (Suc (Suc (Suc (Suc 0)))) ([] @ [Some ?blk]) ?bc =
              Some ([Some ?blk, Some (CmdStatement ?two)], ?end)"
    by (simp add: parser_eval)
  note t1 = missing_terminator_recovery [of "Some (CmdStatement ?a)" ?pb ?pa 0 "[]"]
  note t2 = missing_terminator_recovery [of "Some (CmdStatement ?a)" ?pb ?pa "Suc 0" "[]"]
  note t3 = missing_terminator_recovery [of "Some ?blk" ?bb ?ba "Suc (Suc (Suc 0))" "[]" ?blk ?bb]
  note e1 = t1 [THEN conjunct1]
  note s1 = t1 [THEN conjunct2, THEN conjunct2, THEN conjunct1, THEN mp, OF hP]
  note s2 = t2 [THEN conjunct2, THEN conjunct2, THEN conjunct1, THEN mp, OF hP]
  note e3 = t3 [THEN conjunct1]
  note s3 = t3 [THEN conjunct2, THEN conjunct2, THEN conjunct2, THEN conjunct1, THEN mp, OF hB]
  from s1 [THEN conjunct1] e1
  have 1: "parseStatement (Suc 0) ?pa = Some (Some (CmdStatement ?a), ?pc)"
    by (simp only: cP fst_conv snd_conv kP if_False eP)
  from s2 [THEN conjunct2]
  have 2: "parseProgram_loop (Suc (Suc (Suc 0))) [] ?pa =
             Some ([Some (CmdStatement ?a), Some (CmdStatement ?two)], ?end)"
    by (simp only: cP fst_conv snd_conv kP if_False eP r1)
  from s3 [THEN conjunct1] e3
  have 3: "parseStatement (Suc (Suc (Suc (Suc 0)))) ?ba = Some (Some ?blk, ?bc)"
    by (simp only: kP if_False eP)
  from s3 [THEN conjunct2]
  have 4: "parseProgram_loop (Suc (Suc (Suc (Suc (Suc 0))))) [] ?ba =
             Some ([Some ?blk, Some (CmdStatement ?two)], ?end)"
    by (simp only: kP if_False eP r2)
  from 1 2 3 4 show ?thesis by (simp only: simp_thms)
qed

subsection \<open>Lexer: the end of input in statement mode\<close>


text \<open>
  In statement mode the end of the source does produce the end-of-input token: the
  source \<open>if\<close> gives the keyword, then \<open>EOF\<close>, and the run ends.
\<close>

lemma lexBase_if: "lexBase (Lex ''if'' True) = (afterIf '''', Some LexStmt)"
  by (simp add: lexBase_def lexer_eval consumeWord.simps IsKeyword_if afterIf_def eof_def)

lemma lexStmt_at_end:
  assumes "lexer_atEnd l"
  shows "state U LexStmt l = (emit Eof (l\<lparr>ch := eof, wd := 0\<rparr>), None)"
proof -
  from assms have c: "consume l = l\<lparr>ch := eof, wd := 0\<rparr>" by (simp add: consume_def)
  have n: "\<not> isIdentStart U eof"
    by (simp add: isIdentStart_def unicode_IsLetter_def eof_def)
  have e: "eof \<noteq> 0x22" "eof \<noteq> of_char (CHR ''#'')" by (simp_all add: eof_def)
  have ch: "ch (l\<lparr>ch := eof, wd := 0\<rparr>) = eof" by simp
  have "lexStmt U l = (emit Eof (l\<lparr>ch := eof, wd := 0\<rparr>), None)"
    unfolding lexStmt_def Let_def c ch
    using not_eof_simps(1,4) n e IsOperator_eof
    by (simp only: if_False if_True refl)
  then show ?thesis by (simp add: state_def)
qed

lemma run_if:
  "Tokens (run U (Lex ''if'' True)) =
     [\<lparr>Type = If_tok, Literal = ''if'', Position = \<lparr>Line = 1, Col = 1\<rparr>\<rparr>,
      \<lparr>Type = Eof, Literal = '''', Position = \<lparr>Line = 1, Col = 3\<rparr>\<rparr>]"
proof -
  have a: "lexer_atEnd (afterIf '''')" by (simp add: afterIf_def lexer_atEnd_def)
  have "run_loop U LexBase (Lex ''if'' True) = emit Eof ((afterIf '''')\<lparr>ch := eof, wd := 0\<rparr>)"
    using lexBase_if lexStmt_at_end [OF a, of U]
    by (simp add: run_loop.simps [of U LexBase "Lex ''if'' True"]
          run_loop.simps [of U LexStmt "afterIf ''''"] state_def)
  then show ?thesis
    by (simp add: run_def emit_Tokens) (simp add: afterIf_def literal_def)
qed

subsection \<open>Lexer: every fault read is reported\<close>
























































end
